theory Spec2Isabelle
  imports Complex_Main "HOL-Library.AList" "HOL-Library.Word"
begin

section \<open>Containers and the graph store\<close>

text \<open>
  Node identifiers are \<^verbatim>\<open>unode_int\<close> (an unsigned machine integer in the source). The
  evaluator only compares them and counts upwards from zero, once per node, so they are
  natural numbers here.

  A \<^verbatim>\<open>std::unordered_set\<close> is a duplicate-free list: membership is \<open>x \<in> set xs\<close>,
  \<^verbatim>\<open>insert\<close> adds an absent element at the end, \<^verbatim>\<open>erase\<close> is \<open>removeAll\<close>, and a
  range-for visits the list from the front. The order in which the C++ library visits an
  unordered container is implementation defined; the list order stands for it.
\<close>

type_synonym unode_int = nat

definition uset_insert :: "'a \<Rightarrow> 'a list \<Rightarrow> 'a list" where
  "uset_insert x xs = (if x \<in> set xs then xs else xs @ [x])"

text \<open>
  \<^verbatim>\<open>operator[]\<close> of an \<^verbatim>\<open>unordered_map\<close> gives the default value (0, \<open>false\<close>, 0.0, the empty
  set) for a key that has no entry, and adds the key with that value. The maps read this way
  are never iterated, searched or counted afterwards, except \<^verbatim>\<open>cc_list[i]\<close>, whose only
  iteration changes nothing; so the added entry cannot be told from an absent one, and a
  read here leaves the map as it is. The working maps of \<^verbatim>\<open>scc\<close> are partial functions;
  the maps the evaluator keeps are lists of entries, written with \<open>AList.update\<close>.
\<close>

definition lookup0 :: "('k \<rightharpoonup> nat) \<Rightarrow> 'k \<Rightarrow> nat" where
  "lookup0 m k = (case m k of None \<Rightarrow> 0 | Some v \<Rightarrow> v)"

datatype InfluenceDistribution =
    SingleInfluence real
  | BetaInfluence real real real

record edge =
  target :: unode_int
  dist :: InfluenceDistribution

text \<open>
  Modelled from the spec: the class \<^verbatim>\<open>Graph\<close> (\<^verbatim>\<open>Graph.hpp\<close>) is not among the sources.
  The spec describes it as a mapping from a node to its list of outgoing arcs, whose node
  set is the union of all endpoints, with \<^verbatim>\<open>add_edge\<close> appending an arc (duplicates are
  not filtered) and \<^verbatim>\<open>remove_node(u)\<close> dropping \<open>u\<close> and all its outgoing arcs. The
  record keeps the nodes in the order \<^verbatim>\<open>get_nodes()\<close> visits them and the adjacency as a
  list of entries, one per node that has outgoing arcs.
\<close>

record Graph =
  node_list :: "unode_int list"
  adj_list :: "(unode_int \<times> edge list) list"

definition empty_graph :: Graph where
  "empty_graph = \<lparr>node_list = [], adj_list = []\<rparr>"

definition get_nodes :: "Graph \<Rightarrow> unode_int list" where
  "get_nodes g = node_list g"

definition has_node :: "Graph \<Rightarrow> unode_int \<Rightarrow> bool" where
  "has_node g u = (u \<in> set (node_list g))"

definition has_neighbours :: "Graph \<Rightarrow> unode_int \<Rightarrow> bool" where
  "has_neighbours g u = (map_of (adj_list g) u \<noteq> None)"

definition get_neighbours :: "Graph \<Rightarrow> unode_int \<Rightarrow> edge list" where
  "get_neighbours g u = (case map_of (adj_list g) u of None \<Rightarrow> [] | Some es \<Rightarrow> es)"

definition add_node :: "unode_int \<Rightarrow> Graph \<Rightarrow> Graph" where
  "add_node u g = g\<lparr>node_list := uset_insert u (node_list g)\<rparr>"

definition add_edge :: "unode_int \<Rightarrow> unode_int \<Rightarrow> InfluenceDistribution \<Rightarrow> Graph \<Rightarrow> Graph" where
  "add_edge u v d g =
     g\<lparr>node_list := uset_insert v (uset_insert u (node_list g)),
       adj_list := AList.update u (get_neighbours g u @ [\<lparr>target = v, dist = d\<rparr>]) (adj_list g)\<rparr>"

definition remove_node :: "unode_int \<Rightarrow> Graph \<Rightarrow> Graph" where
  "remove_node u g =
     g\<lparr>node_list := removeAll u (node_list g), adj_list := AList.delete u (adj_list g)\<rparr>"

text \<open>The arcs of a graph as a relation, and every node that is the head of some arc.\<close>

definition arcs :: "Graph \<Rightarrow> (unode_int \<times> unode_int) set" where
  "arcs g = {(u, v). \<exists>e \<in> set (get_neighbours g u). target e = v}"

definition arc_targets :: "Graph \<Rightarrow> unode_int set" where
  "arc_targets g = (\<Union>(u, es) \<in> set (adj_list g). target ` set es)"

section \<open>Breadth-first search of the evaluator\<close>

text \<open>
  \<^verbatim>\<open>OhsakaEvaluator::bfs(node, i, col, to, to_node)\<close> walks \<^verbatim>\<open>graphs[i]\<close> from \<open>node\<close>.
  With \<open>to = false\<close> it inserts every newly met arc head into \<open>col\<close>; with \<open>to = true\<close> it
  inserts \<open>node\<close> into \<open>col\<close> and returns as soon as it meets \<open>to_node\<close>. The inner
  \<^verbatim>\<open>for\<close> over the neighbours is \<open>bfs_for\<close>; its boolean result says that the \<^verbatim>\<open>return\<close>
  was taken. The loop state is the queue, the local \<open>visited\<close> set and \<open>col\<close>.
\<close>

type_synonym bfs_state = "unode_int list \<times> unode_int list \<times> unode_int list"

fun bfs_for :: "unode_int \<Rightarrow> bool \<Rightarrow> unode_int \<Rightarrow> edge list \<Rightarrow> bfs_state \<Rightarrow> bool \<times> bfs_state" where
  "bfs_for node to to_node [] s = (False, s)"
| "bfs_for node to to_node (neigh # rest) (q, visited, col) =
     (if target neigh \<notin> set visited then
        (if \<not> to then
           bfs_for node to to_node rest
             (q @ [target neigh], uset_insert (target neigh) visited,
              uset_insert (target neigh) col)
         else if target neigh = to_node then
           (True, (q @ [target neigh], uset_insert (target neigh) visited,
                   uset_insert node col))
         else
           bfs_for node to to_node rest
             (q @ [target neigh], uset_insert (target neigh) visited, col))
      else bfs_for node to to_node rest (q, visited, col))"

lemma set_uset_insert [simp]: "set (uset_insert x xs) = insert x (set xs)"
  by (auto simp: uset_insert_def)

lemma distinct_uset_insert [simp]: "distinct (uset_insert x xs) = distinct xs"
  by (auto simp: uset_insert_def)

lemma bfs_for_visited_mono:
  "bfs_for node to to_node es (q, visited, col) = (b, q', visited', col') \<Longrightarrow>
   set visited \<subseteq> set visited'"
proof (induction es arbitrary: q visited col)
  case Nil
  then show ?case by simp
next
  case (Cons e es)
  consider (seen) "target e \<in> set visited"
    | (collect) "target e \<notin> set visited" "\<not> to"
    | (found) "target e \<notin> set visited" "to" "target e = to_node"
    | (skip) "target e \<notin> set visited" "to" "target e \<noteq> to_node"
    by blast
  then show ?case
  proof cases
    case seen
    with Cons.prems have "bfs_for node to to_node es (q, visited, col) = (b, q', visited', col')"
      by simp
    then show ?thesis by (rule Cons.IH)
  next
    case collect
    with Cons.prems have "bfs_for node to to_node es
        (q @ [target e], uset_insert (target e) visited, uset_insert (target e) col)
        = (b, q', visited', col')"
      by simp
    from Cons.IH[OF this] show ?thesis by simp
  next
    case found
    with Cons.prems have "visited' = uset_insert (target e) visited" by simp
    then show ?thesis by auto
  next
    case skip
    with Cons.prems have "bfs_for node to to_node es
        (q @ [target e], uset_insert (target e) visited, col) = (b, q', visited', col')"
      by simp
    from Cons.IH[OF this] show ?thesis by simp
  qed
qed

lemma bfs_for_visited_new:
  assumes "bfs_for node to to_node (e # es) (q, visited, col) = (b, q', visited', col')"
    and "target e \<notin> set visited"
  shows "target e \<in> set visited'"
proof -
  consider (collect) "\<not> to" | (found) "to" "target e = to_node"
    | (skip) "to" "target e \<noteq> to_node"
    by blast
  then show ?thesis
  proof cases
    case collect
    with assms have "bfs_for node to to_node es
        (q @ [target e], uset_insert (target e) visited, uset_insert (target e) col)
        = (b, q', visited', col')"
      by simp
    from bfs_for_visited_mono[OF this] show ?thesis by simp
  next
    case found
    with assms have "visited' = uset_insert (target e) visited" by simp
    then show ?thesis by simp
  next
    case skip
    with assms have "bfs_for node to to_node es
        (q @ [target e], uset_insert (target e) visited, col) = (b, q', visited', col')"
      by simp
    from bfs_for_visited_mono[OF this] show ?thesis by simp
  qed
qed

lemma bfs_for_progress:
  "bfs_for node to to_node es (q, visited, col) = (b, q', visited', col') \<Longrightarrow>
   target ` set es \<subseteq> T \<Longrightarrow>
   (q' = q \<and> set visited' = set visited) \<or> T - set visited' \<subset> T - set visited"
proof (induction es arbitrary: q visited col)
  case Nil
  then show ?case by simp
next
  case (Cons e es)
  show ?case
  proof (cases "target e \<in> set visited")
    case True
    with Cons.prems(1)
    have run: "bfs_for node to to_node es (q, visited, col) = (b, q', visited', col')"
      by simp
    from Cons.prems(2) have sub: "target ` set es \<subseteq> T" by simp
    show ?thesis by (rule Cons.IH[OF run sub])
  next
    case False
    from Cons.prems(2) have inT: "target e \<in> T" by simp
    have new: "target e \<in> set visited'"
      using Cons.prems(1) False by (rule bfs_for_visited_new)
    have mono: "set visited \<subseteq> set visited'"
      using Cons.prems(1) by (rule bfs_for_visited_mono)
    have "T - set visited' \<subseteq> T - set visited"
      using mono by (rule Diff_mono[OF subset_refl])
    moreover have "target e \<in> T - set visited" using inT False by simp
    moreover have "target e \<notin> T - set visited'" using new by simp
    ultimately have "T - set visited' \<subset> T - set visited"
      by (metis psubsetI)
    then show ?thesis by (rule disjI2)
  qed
qed

lemma get_neighbours_targets: "target ` set (get_neighbours g u) \<subseteq> arc_targets g"
proof (cases "map_of (adj_list g) u")
  case None
  then show ?thesis by (simp add: get_neighbours_def)
next
  case (Some es)
  then have "(u, es) \<in> set (adj_list g)" by (rule map_of_SomeD)
  with Some show ?thesis by (force simp: get_neighbours_def arc_targets_def)
qed

lemma finite_arc_targets: "finite (arc_targets g)"
  by (auto simp: arc_targets_def)

function bfs_while ::
  "Graph \<Rightarrow> unode_int \<Rightarrow> bool \<Rightarrow> unode_int \<Rightarrow> unode_int list \<Rightarrow> unode_int list \<Rightarrow> unode_int list
   \<Rightarrow> unode_int list" where
  "bfs_while g node to to_node [] visited col = col"
| "bfs_while g node to to_node (cur_node # q) visited col =
     (if has_neighbours g cur_node then
        (case bfs_for node to to_node (get_neighbours g cur_node)
                (q, uset_insert cur_node visited, col) of
           (True, (q', visited', col')) \<Rightarrow> col'
         | (False, (q', visited', col')) \<Rightarrow> bfs_while g node to to_node q' visited' col')
      else bfs_while g node to to_node q (uset_insert cur_node visited) col)"
  by pat_completeness auto

termination
proof (relation "inv_image (finite_psubset <*lex*> less_than)
                   (\<lambda>(g, node, to, to_node, q, visited, col).
                      (arc_targets g - set visited, length q))")
  show "wf (inv_image (finite_psubset <*lex*> less_than)
              (\<lambda>(g, node, to, to_node, q, visited, col).
                 (arc_targets g - set visited, length q)))"
    by (intro wf_inv_image wf_lex_prod wf_finite_psubset wf_less_than)
next
  fix g :: Graph and node to to_node cur_node q visited col x y xa ya xb yb
  assume "(x, y) = bfs_for node to to_node (get_neighbours g cur_node)
                     (q, uset_insert cur_node visited, col)"
    and "x = False" and "(xa, ya) = y" and "(xb, yb) = ya"
  then have run: "bfs_for node to to_node (get_neighbours g cur_node)
                    (q, uset_insert cur_node visited, col) = (False, xa, xb, yb)"
    by simp
  from bfs_for_progress[OF run get_neighbours_targets]
  consider (same) "xa = q" "set xb = set (uset_insert cur_node visited)"
    | (less) "arc_targets g - set xb \<subset> arc_targets g - set (uset_insert cur_node visited)"
    by blast
  then show "((g, node, to, to_node, xa, xb, yb), g, node, to, to_node, cur_node # q, visited, col)
             \<in> inv_image (finite_psubset <*lex*> less_than)
                 (\<lambda>(g, node, to, to_node, q, visited, col).
                    (arc_targets g - set visited, length q))"
  proof cases
    case same
    then have "arc_targets g - set xb \<subseteq> arc_targets g - set visited"
      by auto
    then have "arc_targets g - set xb \<subset> arc_targets g - set visited
               \<or> arc_targets g - set xb = arc_targets g - set visited"
      by blast
    then show ?thesis
      using same(1) finite_arc_targets[of g]
      by (auto simp: finite_psubset_def)
  next
    case less
    then have "arc_targets g - set xb \<subset> arc_targets g - set visited"
      by auto
    then show ?thesis
      using finite_arc_targets[of g] by (simp add: finite_psubset_def)
  qed
next
  fix g :: Graph and node to to_node cur_node q visited col
  have "arc_targets g - set (uset_insert cur_node visited) \<subseteq> arc_targets g - set visited"
    by auto
  then have "arc_targets g - set (uset_insert cur_node visited) \<subset> arc_targets g - set visited
             \<or> arc_targets g - set (uset_insert cur_node visited) = arc_targets g - set visited"
    by blast
  then show "((g, node, to, to_node, q, uset_insert cur_node visited, col), g, node, to, to_node,
              cur_node # q, visited, col)
             \<in> inv_image (finite_psubset <*lex*> less_than)
                 (\<lambda>(g, node, to, to_node, q, visited, col).
                    (arc_targets g - set visited, length q))"
    using finite_arc_targets[of g] by (auto simp: finite_psubset_def)
qed

definition bfs :: "Graph \<Rightarrow> unode_int \<Rightarrow> unode_int list \<Rightarrow> bool \<Rightarrow> unode_int \<Rightarrow> unode_int list" where
  "bfs g node col to to_node = bfs_while g node to to_node [node] [node] col"

section \<open>Sampling and strongly connected components\<close>

text \<open>
  In \<^verbatim>\<open>scc\<close> an arc is live when \<^verbatim>\<open>dice < dice_dst\<close>, where \<^verbatim>\<open>dice\<close> is drawn from the
  evaluator's generator \<^verbatim>\<open>gen\<close> and \<^verbatim>\<open>dice_dst\<close> is what the arc's distribution returns.
  The generator and the distributions are library and absent code; the state of the
  generator is the sequence of the outcomes of the comparisons still to come, and one
  comparison takes the first of them.
\<close>

type_synonym coins = "nat \<Rightarrow> bool"

definition draw :: "coins \<Rightarrow> bool \<times> coins" where
  "draw c = (c 0, \<lambda>n. c (Suc n))"

type_synonym cc_map = "(unode_int \<times> unode_int) list"
type_synonym cc_node_map = "(nat \<times> unode_int list) list"

text \<open>\<^verbatim>\<open>m[c]\<close> on a \<^verbatim>\<open>cc_node_map\<close> (an absent key reads as the empty set),
  and \<^verbatim>\<open>m[c].insert(n)\<close>.\<close>

definition cc_members :: "cc_node_map \<Rightarrow> nat \<Rightarrow> unode_int list" where
  "cc_members m c = (case map_of m c of None \<Rightarrow> [] | Some ns \<Rightarrow> ns)"

definition cc_insert :: "nat \<Rightarrow> unode_int \<Rightarrow> cc_node_map \<Rightarrow> cc_node_map" where
  "cc_insert c n m = AList.update c (uset_insert n (cc_members m c)) m"

text \<open>
  The members of the evaluator that \<^verbatim>\<open>tarjan\<close> and \<^verbatim>\<open>scc\<close> work on, with the three
  reference parameters \<^verbatim>\<open>cur_cc\<close>, \<^verbatim>\<open>cur_cc_list\<close> and \<^verbatim>\<open>cur_num_cc\<close> of \<^verbatim>\<open>scc\<close>.
  The top of \<^verbatim>\<open>vis_stack\<close> is the head of the list. \<^verbatim>\<open>pred\<close> is iterated by \<^verbatim>\<open>tarjan\<close>
  and is therefore a list of entries.
\<close>

record tarjan_state =
  lowlink :: "unode_int \<rightharpoonup> unode_int"
  index :: "unode_int \<rightharpoonup> unode_int"
  pred :: "(unode_int \<times> unode_int) list"
  visited :: "unode_int list"
  vis_stack :: "unode_int list"
  cur_index :: unode_int
  gen :: coins
  cur_cc :: cc_map
  cur_cc_list :: cc_node_map
  cur_num_cc :: nat

text \<open>
  The \<^verbatim>\<open>do ... while (cur_node != node)\<close> loop of \<^verbatim>\<open>scc\<close>, on the stack it pops.
  \<^verbatim>\<open>top()\<close> of an empty stack is undefined behaviour: the result \<open>None\<close>.
\<close>

fun pop_scc :: "unode_int \<Rightarrow> unode_int list \<Rightarrow> tarjan_state \<Rightarrow> tarjan_state option" where
  "pop_scc node [] st = None"
| "pop_scc node (cur_node # stack) st =
     (let st1 = st\<lparr>vis_stack := stack,
                     visited := removeAll cur_node (visited st),
                     cur_cc := AList.update cur_node (cur_num_cc st) (cur_cc st),
                     cur_cc_list := cc_insert (cur_num_cc st) cur_node (cur_cc_list st)\<rparr>
      in if cur_node \<noteq> node then pop_scc node stack st1 else Some st1)"

function scc :: "Graph \<Rightarrow> unode_int \<Rightarrow> tarjan_state \<Rightarrow> tarjan_state option"
  and scc_for :: "Graph \<Rightarrow> unode_int \<Rightarrow> edge list \<Rightarrow> tarjan_state \<Rightarrow> tarjan_state option"
where
  "scc graph node st =
     (let st1 = st\<lparr>index := (index st)(node \<mapsto> cur_index st),
                     lowlink := (lowlink st)(node \<mapsto> cur_index st),
                     cur_index := cur_index st + 1,
                     visited := uset_insert node (visited st),
                     vis_stack := node # vis_stack st\<rparr>
      in case (if has_neighbours graph node
               then scc_for graph node (get_neighbours graph node) st1
               else Some st1) of
           None \<Rightarrow> None
         | Some st2 \<Rightarrow>
             if lookup0 (lowlink st2) node = lookup0 (index st2) node then
               (case pop_scc node (vis_stack st2) st2 of
                  None \<Rightarrow> None
                | Some st3 \<Rightarrow> Some (st3\<lparr>cur_num_cc := cur_num_cc st3 + 1\<rparr>))
             else Some st2)"
| "scc_for graph node [] st = Some st"
| "scc_for graph node (e # es) st =
     (let live = fst (draw (gen st));
          st1 = st\<lparr>gen := snd (draw (gen st))\<rparr>
      in if live then
           (if index st1 (target e) = None then
              (case scc graph (target e)
                      (st1\<lparr>pred := AList.update (target e) node (pred st1)\<rparr>) of
                 None \<Rightarrow> None
               | Some st2 \<Rightarrow>
                   scc_for graph node es
                     (st2\<lparr>lowlink := (lowlink st2)(node \<mapsto>
                        min (lookup0 (lowlink st2) node) (lookup0 (lowlink st2) (target e)))\<rparr>))
            else
              scc_for graph node es
                (st1\<lparr>lowlink := (lowlink st1)(node \<mapsto>
                   min (lookup0 (lowlink st1) node) (lookup0 (index st1) (target e)))\<rparr>))
         else scc_for graph node es st1)"
  by pat_completeness auto

lemma lex_step_le:
  "finite A \<Longrightarrow> B \<subseteq> A \<Longrightarrow> m < n \<Longrightarrow> ((B, m), (A, n)) \<in> finite_psubset <*lex*> less_than"
  by (cases "B = A") (simp_all add: finite_psubset_def psubset_eq)

lemma lex_step_less:
  "finite A \<Longrightarrow> B \<subseteq> A \<Longrightarrow> x \<in> A \<Longrightarrow> x \<notin> B \<Longrightarrow>
   ((B, m), (A, n)) \<in> finite_psubset <*lex*> less_than"
  by (simp add: finite_psubset_def psubset_eq) blast

lemma pop_scc_index: "pop_scc node stack st = Some st' \<Longrightarrow> index st' = index st"
proof (induction stack arbitrary: st)
  case Nil
  then show ?case by simp
next
  case (Cons c stack)
  show ?case
  proof (cases "c = node")
    case True
    with Cons.prems show ?thesis by (auto simp: Let_def)
  next
    case False
    with Cons.prems have "pop_scc node stack (st\<lparr>vis_stack := stack,
                     visited := removeAll c (visited st),
                     cur_cc := AList.update c (cur_num_cc st) (cur_cc st),
                     cur_cc_list := cc_insert (cur_num_cc st) c (cur_cc_list st)\<rparr>) = Some st'"
      by (simp add: Let_def)
    from Cons.IH[OF this] show ?thesis by simp
  qed
qed

lemma scc_index_mono_dom:
  shows "scc_scc_for_dom (Inl (g, node, st)) \<Longrightarrow> scc g node st = Some st' \<Longrightarrow>
         dom (index st) \<subseteq> dom (index st')"
    and "scc_scc_for_dom (Inr (g, node, es, st)) \<Longrightarrow> scc_for g node es st = Some st' \<Longrightarrow>
         dom (index st) \<subseteq> dom (index st')"
proof (induct g node st and g node es st arbitrary: st' and st' rule: scc_scc_for.pinduct)
  case (1 graph node st)
  define st1 where "st1 = st\<lparr>index := (index st)(node \<mapsto> cur_index st),
                     lowlink := (lowlink st)(node \<mapsto> cur_index st),
                     cur_index := cur_index st + 1,
                     visited := uset_insert node (visited st),
                     vis_stack := node # vis_stack st\<rparr>"
  have d1: "dom (index st) \<subseteq> dom (index st1)" by (auto simp: st1_def)
  let ?r = "if has_neighbours graph node
            then scc_for graph node (get_neighbours graph node) st1 else Some st1"
  note run = "1.prems"[unfolded scc.psimps[OF "1.hyps"(1)] Let_def, folded st1_def]
  obtain st2 where st2: "?r = Some st2"
    using run by (cases ?r) auto
  from run have fin: "(if lookup0 (lowlink st2) node = lookup0 (index st2) node then
               (case pop_scc node (vis_stack st2) st2 of
                  None \<Rightarrow> None
                | Some st3 \<Rightarrow> Some (st3\<lparr>cur_num_cc := cur_num_cc st3 + 1\<rparr>))
             else Some st2) = Some st'"
    unfolding st2 by simp
  have d2: "dom (index st1) \<subseteq> dom (index st2)"
  proof (cases "has_neighbours graph node")
    case True
    with st2 have "scc_for graph node (get_neighbours graph node) st1 = Some st2" by simp
    from "1.hyps"(2)[OF st1_def True this] show ?thesis .
  next
    case False
    with st2 show ?thesis by simp
  qed
  have "index st' = index st2"
  proof (cases "lookup0 (lowlink st2) node = lookup0 (index st2) node")
    case True
    with fin obtain st3 where p: "pop_scc node (vis_stack st2) st2 = Some st3"
      and e: "st' = st3\<lparr>cur_num_cc := cur_num_cc st3 + 1\<rparr>"
      by (auto split: option.splits)
    from pop_scc_index[OF p] e show ?thesis by simp
  next
    case False
    with fin show ?thesis by simp
  qed
  with d1 d2 show ?case by simp
next
  case (2 graph node st)
  then show ?case by (simp add: scc_for.psimps)
next
  case (3 graph node e es st)
  define live where "live = fst (draw (gen st))"
  define st1 where "st1 = st\<lparr>gen := snd (draw (gen st))\<rparr>"
  have i1: "index st1 = index st" by (simp add: st1_def)
  note run = "3.prems"[unfolded scc_for.psimps(2)[OF "3.hyps"(1)] Let_def,
                       folded live_def st1_def]
  show ?case
  proof (cases live)
    case False
    with run have "scc_for graph node es st1 = Some st'" by simp
    from "3.hyps"(5)[OF live_def st1_def False this] i1 show ?thesis by simp
  next
    case True
    show ?thesis
    proof (cases "index st1 (target e) = None")
      case False
      with True run have "scc_for graph node es
                (st1\<lparr>lowlink := (lowlink st1)(node \<mapsto>
                   min (lookup0 (lowlink st1) node) (lookup0 (index st1) (target e)))\<rparr>)
                = Some st'"
        by simp
      from "3.hyps"(4)[OF live_def st1_def True False this] i1 show ?thesis by simp
    next
      case None: True
      with True run obtain st2 where
        r: "scc graph (target e) (st1\<lparr>pred := AList.update (target e) node (pred st1)\<rparr>)
            = Some st2"
        and c: "scc_for graph node es
                     (st2\<lparr>lowlink := (lowlink st2)(node \<mapsto>
                        min (lookup0 (lowlink st2) node) (lookup0 (lowlink st2) (target e)))\<rparr>)
                = Some st'"
        by (auto split: option.splits)
      from "3.hyps"(2)[OF live_def st1_def True None r]
      have a: "dom (index st1) \<subseteq> dom (index st2)" by simp
      from "3.hyps"(3)[OF live_def st1_def True None r c]
      have b: "dom (index st2) \<subseteq> dom (index st')" by simp
      from a b i1 show ?thesis by simp
    qed
  qed
qed

termination scc
proof (relation "inv_image (finite_psubset <*lex*> less_than)
     (\<lambda>x. case x of
        Inl (g, node, st) \<Rightarrow>
          (arc_targets g - dom (index st) - {node}, Suc (length (get_neighbours g node)))
      | Inr (g, node, es, st) \<Rightarrow>
          ((arc_targets g \<union> target ` set es) - dom (index st), length es))")
  show "wf (inv_image (finite_psubset <*lex*> less_than)
     (\<lambda>x. case x of
        Inl (g, node, st) \<Rightarrow>
          (arc_targets g - dom (index st) - {node}, Suc (length (get_neighbours g node)))
      | Inr (g, node, es, st) \<Rightarrow>
          ((arc_targets g \<union> target ` set es) - dom (index st), length es)))"
    by (intro wf_inv_image wf_lex_prod wf_finite_psubset wf_less_than)
next
  fix graph :: Graph and node :: unode_int and st x :: tarjan_state
  assume x: "x = st\<lparr>index := (index st)(node \<mapsto> cur_index st),
                     lowlink := (lowlink st)(node \<mapsto> cur_index st),
                     cur_index := cur_index st + 1,
                     visited := uset_insert node (visited st),
                     vis_stack := node # vis_stack st\<rparr>"
  have sub: "target ` set (get_neighbours graph node) \<subseteq> arc_targets graph"
    by (rule get_neighbours_targets)
  have "(arc_targets graph \<union> target ` set (get_neighbours graph node)) - dom (index x)
        \<subseteq> arc_targets graph - dom (index st) - {node}"
    using sub by (auto simp: x)
  then have "(((arc_targets graph \<union> target ` set (get_neighbours graph node)) - dom (index x),
               length (get_neighbours graph node)),
              (arc_targets graph - dom (index st) - {node},
               Suc (length (get_neighbours graph node))))
             \<in> finite_psubset <*lex*> less_than"
    by (intro lex_step_le) (simp_all add: finite_arc_targets)
  then show "(Inr (graph, node, get_neighbours graph node, x), Inl (graph, node, st))
       \<in> inv_image (finite_psubset <*lex*> less_than)
     (\<lambda>x. case x of
        Inl (g, node, st) \<Rightarrow>
          (arc_targets g - dom (index st) - {node}, Suc (length (get_neighbours g node)))
      | Inr (g, node, es, st) \<Rightarrow>
          ((arc_targets g \<union> target ` set es) - dom (index st), length es))"
    by simp
next
  fix graph :: Graph and node :: unode_int and e es and st xa :: tarjan_state and x :: bool
  assume xa: "xa = st\<lparr>gen := snd (draw (gen st))\<rparr>"
    and un: "index xa (target e) = None"
  have "((arc_targets graph - dom (index xa) - {target e},
          Suc (length (get_neighbours graph (target e)))),
         ((arc_targets graph \<union> target ` set (e # es)) - dom (index st), length (e # es)))
        \<in> finite_psubset <*lex*> less_than"
  proof (rule lex_step_less[where x = "target e"])
    show "finite ((arc_targets graph \<union> target ` set (e # es)) - dom (index st))"
      by (simp add: finite_arc_targets)
    show "arc_targets graph - dom (index xa) - {target e}
          \<subseteq> (arc_targets graph \<union> target ` set (e # es)) - dom (index st)"
      by (auto simp: xa)
    show "target e \<in> (arc_targets graph \<union> target ` set (e # es)) - dom (index st)"
      using un by (auto simp: xa)
    show "target e \<notin> arc_targets graph - dom (index xa) - {target e}"
      by simp
  qed
  then show "(Inl (graph, target e, xa\<lparr>pred := AList.update (target e) node (pred xa)\<rparr>),
        Inr (graph, node, e # es, st))
       \<in> inv_image (finite_psubset <*lex*> less_than)
     (\<lambda>x. case x of
        Inl (g, node, st) \<Rightarrow>
          (arc_targets g - dom (index st) - {node}, Suc (length (get_neighbours g node)))
      | Inr (g, node, es, st) \<Rightarrow>
          ((arc_targets g \<union> target ` set es) - dom (index st), length es))"
    by simp
next
  fix graph :: Graph and node :: unode_int and e es and st xa x2 :: tarjan_state and x :: bool
  assume xa: "xa = st\<lparr>gen := snd (draw (gen st))\<rparr>"
    and r: "scc graph (target e) (xa\<lparr>pred := AList.update (target e) node (pred xa)\<rparr>)
            = Some x2"
    and d: "scc_scc_for_dom
              (Inl (graph, target e, xa\<lparr>pred := AList.update (target e) node (pred xa)\<rparr>))"
  from scc_index_mono_dom(1)[OF d r] have "dom (index st) \<subseteq> dom (index x2)"
    by (simp add: xa)
  then have "(arc_targets graph \<union> target ` set es) - dom (index x2)
             \<subseteq> (arc_targets graph \<union> target ` set (e # es)) - dom (index st)"
    by auto
  then have "(((arc_targets graph \<union> target ` set es) - dom (index x2), length es),
              ((arc_targets graph \<union> target ` set (e # es)) - dom (index st), length (e # es)))
             \<in> finite_psubset <*lex*> less_than"
    by (intro lex_step_le) (simp_all add: finite_arc_targets)
  then show "(Inr (graph, node, es,
             x2\<lparr>lowlink := (lowlink x2)(node \<mapsto>
                   min (lookup0 (lowlink x2) node) (lookup0 (lowlink x2) (target e)))\<rparr>),
        Inr (graph, node, e # es, st))
       \<in> inv_image (finite_psubset <*lex*> less_than)
     (\<lambda>x. case x of
        Inl (g, node, st) \<Rightarrow>
          (arc_targets g - dom (index st) - {node}, Suc (length (get_neighbours g node)))
      | Inr (g, node, es, st) \<Rightarrow>
          ((arc_targets g \<union> target ` set es) - dom (index st), length es))"
    by simp
next
  fix graph :: Graph and node :: unode_int and e es and st xa :: tarjan_state and x :: bool
  assume xa: "xa = st\<lparr>gen := snd (draw (gen st))\<rparr>"
  have "(arc_targets graph \<union> target ` set es) - dom (index xa)
             \<subseteq> (arc_targets graph \<union> target ` set (e # es)) - dom (index st)"
    by (auto simp: xa)
  then have "(((arc_targets graph \<union> target ` set es) - dom (index xa), length es),
              ((arc_targets graph \<union> target ` set (e # es)) - dom (index st), length (e # es)))
             \<in> finite_psubset <*lex*> less_than"
    by (intro lex_step_le) (simp_all add: finite_arc_targets)
  then show "(Inr (graph, node, es,
             xa\<lparr>lowlink := (lowlink xa)(node \<mapsto>
                   min (lookup0 (lowlink xa) node) (lookup0 (index xa) (target e)))\<rparr>),
        Inr (graph, node, e # es, st))
       \<in> inv_image (finite_psubset <*lex*> less_than)
     (\<lambda>x. case x of
        Inl (g, node, st) \<Rightarrow>
          (arc_targets g - dom (index st) - {node}, Suc (length (get_neighbours g node)))
      | Inr (g, node, es, st) \<Rightarrow>
          ((arc_targets g \<union> target ` set es) - dom (index st), length es))"
    by simp
next
  fix graph :: Graph and node :: unode_int and e es and st xa :: tarjan_state and x :: bool
  assume xa: "xa = st\<lparr>gen := snd (draw (gen st))\<rparr>"
  have "(arc_targets graph \<union> target ` set es) - dom (index xa)
             \<subseteq> (arc_targets graph \<union> target ` set (e # es)) - dom (index st)"
    by (auto simp: xa)
  then have "(((arc_targets graph \<union> target ` set es) - dom (index xa), length es),
              ((arc_targets graph \<union> target ` set (e # es)) - dom (index st), length (e # es)))
             \<in> finite_psubset <*lex*> less_than"
    by (intro lex_step_le) (simp_all add: finite_arc_targets)
  then show "(Inr (graph, node, es, xa), Inr (graph, node, e # es, st))
       \<in> inv_image (finite_psubset <*lex*> less_than)
     (\<lambda>x. case x of
        Inl (g, node, st) \<Rightarrow>
          (arc_targets g - dom (index st) - {node}, Suc (length (get_neighbours g node)))
      | Inr (g, node, es, st) \<Rightarrow>
          ((arc_targets g \<union> target ` set es) - dom (index st), length es))"
    by simp
qed

text \<open>The equation of \<open>scc\<close> has no pattern to stop the simplifier; it is unfolded by hand.\<close>

declare scc.simps [simp del]

text \<open>
  \<^verbatim>\<open>tarjan\<close>: clear the working members, run \<^verbatim>\<open>scc\<close> from every node that has no index
  yet, then build the contracted graph from \<^verbatim>\<open>pred\<close>. \<^verbatim>\<open>vis_stack\<close> is empty when the
  evaluator is constructed and \<^verbatim>\<open>tarjan\<close> empties it before it returns, so every run starts
  on the empty stack. The results it pushes onto \<^verbatim>\<open>cc\<close>, \<^verbatim>\<open>cc_list\<close> and \<^verbatim>\<open>graphs\<close> are
  returned together with the generator.
\<close>

fun tarjan_for :: "Graph \<Rightarrow> unode_int list \<Rightarrow> tarjan_state \<Rightarrow> tarjan_state option" where
  "tarjan_for graph [] st = Some st"
| "tarjan_for graph (node # rest) st =
     (if index st node = None then
        (case scc graph node (st\<lparr>pred := AList.update node node (pred st)\<rparr>) of
           None \<Rightarrow> None
         | Some st1 \<Rightarrow> tarjan_for graph rest st1)
      else tarjan_for graph rest st)"

fun build_dag :: "cc_map \<Rightarrow> (unode_int \<times> unode_int) list \<Rightarrow> Graph \<Rightarrow> Graph" where
  "build_dag ccm [] dag = dag"
| "build_dag ccm (val # rest) dag =
     (let dag1 = add_node (fst val) dag
      in if lookup0 (map_of ccm) (snd val) \<noteq> lookup0 (map_of ccm) (fst val)
         then build_dag ccm rest
                (add_edge (lookup0 (map_of ccm) (snd val)) (lookup0 (map_of ccm) (fst val))
                   (SingleInfluence 1) dag1)
         else build_dag ccm rest dag1)"

definition tarjan_init :: "coins \<Rightarrow> tarjan_state" where
  "tarjan_init g = \<lparr>lowlink = Map.empty, index = Map.empty, pred = [], visited = [],
                    vis_stack = [], cur_index = 0, gen = g, cur_cc = [],
                    cur_cc_list = [], cur_num_cc = 0\<rparr>"

definition tarjan :: "Graph \<Rightarrow> coins \<Rightarrow> (cc_map \<times> cc_node_map \<times> Graph \<times> coins) option" where
  "tarjan graph g =
     (case tarjan_for graph (get_nodes graph) (tarjan_init g) of
        None \<Rightarrow> None
      | Some st \<Rightarrow>
          Some (cur_cc st, cur_cc_list st, build_dag (cur_cc st) (pred st) empty_graph, gen st))"

section \<open>The per-sample structures of the evaluator\<close>

text \<open>
  The evaluator keeps eight vectors \<^verbatim>\<open>cc\<close>, \<^verbatim>\<open>cc_list\<close>, \<^verbatim>\<open>graphs\<close>, \<^verbatim>\<open>A\<close>, \<^verbatim>\<open>D\<close>, \<^verbatim>\<open>h\<close>,
  \<^verbatim>\<open>latest\<close> and \<^verbatim>\<open>delta\<close>, all indexed by the sample number \<open>i\<close> and all of the same
  length after each round of the sampling loop. Here the entries at one index form one
  record, and the evaluator keeps a list of these records.

  \<^verbatim>\<open>latest[i]\<close> and \<^verbatim>\<open>delta[i]\<close> are only read and written with \<^verbatim>\<open>operator[]\<close>; \<open>latest_at\<close>
  and \<open>delta_at\<close> are the reads. The \<^verbatim>\<open>float\<close> values of \<^verbatim>\<open>delta\<close> are sums of set sizes
  and are kept as exact rationals.
\<close>

record dag_cache =
  cc_i :: cc_map
  cc_list_i :: cc_node_map
  graphs_i :: Graph
  A_i :: "unode_int list"
  D_i :: "unode_int list"
  h_i :: unode_int
  latest_i :: "(unode_int \<times> bool) list"
  delta_i :: "(unode_int \<times> rat) list"

definition latest_at :: "(unode_int \<times> bool) list \<Rightarrow> unode_int \<Rightarrow> bool" where
  "latest_at m v = (case map_of m v of None \<Rightarrow> False | Some b \<Rightarrow> b)"

definition delta_at :: "(unode_int \<times> rat) list \<Rightarrow> unode_int \<Rightarrow> rat" where
  "delta_at m v = (case map_of m v of None \<Rightarrow> 0 | Some d \<Rightarrow> d)"

text \<open>The search for the node of highest out-degree in \<^verbatim>\<open>select\<close>; the state is
  \<open>(max_node, max_val)\<close>.\<close>

fun max_degree_for :: "Graph \<Rightarrow> unode_int list \<Rightarrow> unode_int \<times> nat \<Rightarrow> unode_int \<times> nat" where
  "max_degree_for g [] s = s"
| "max_degree_for g (node # rest) (max_node, max_val) =
     (let deg = (if has_neighbours g node then length (get_neighbours g node) else 0)
      in if deg \<ge> max_val then max_degree_for g rest (node, deg)
         else max_degree_for g rest (max_node, max_val))"

text \<open>
  The step commented \<^verbatim>\<open>Removing activated nodes\<close>. The loop variable of
  \<^verbatim>\<open>for (auto cc : cc_list[i])\<close> is a copy of the entry it visits. \<open>erase_in_copy\<close> is the
  body: it gives the loop variable and the container as they are when the body ends. The
  loop variable dies there, and the next round goes on with the container.
\<close>

definition erase_in_copy ::
  "unode_int \<Rightarrow> nat \<times> unode_int list \<Rightarrow> cc_node_map \<Rightarrow> (nat \<times> unode_int list) \<times> cc_node_map" where
  "erase_in_copy node cc m =
     (if node \<in> set (snd cc) then ((fst cc, removeAll node (snd cc)), m) else (cc, m))"

fun remove_activated_for :: "unode_int \<Rightarrow> cc_node_map \<Rightarrow> cc_node_map \<Rightarrow> cc_node_map" where
  "remove_activated_for node [] m = m"
| "remove_activated_for node (entry # rest) m =
     remove_activated_for node rest (snd (erase_in_copy node entry m))"

fun remove_activated :: "unode_int list \<Rightarrow> cc_node_map \<Rightarrow> cc_node_map" where
  "remove_activated [] m = m"
| "remove_activated (node # rest) m = remove_activated rest (remove_activated_for node m m)"

text \<open>The loop that fills \<^verbatim>\<open>A[i]\<close> with the nodes from which the hub is reached.\<close>

fun ancestors_for ::
  "Graph \<Rightarrow> unode_int \<Rightarrow> unode_int list \<Rightarrow> unode_int list \<Rightarrow> unode_int list \<Rightarrow> unode_int list" where
  "ancestors_for g hub ds [] as = as"
| "ancestors_for g hub ds (node # rest) as =
     (if node \<noteq> hub \<and> node \<notin> set ds
      then ancestors_for g hub ds rest (bfs g node as True hub)
      else ancestors_for g hub ds rest as)"

fun init_latest :: "unode_int list \<Rightarrow> (unode_int \<times> bool) list \<Rightarrow> (unode_int \<times> bool) list" where
  "init_latest [] m = m"
| "init_latest (node # rest) m = init_latest rest (AList.update node False m)"

fun init_delta :: "unode_int list \<Rightarrow> (unode_int \<times> rat) list \<Rightarrow> (unode_int \<times> rat) list" where
  "init_delta [] m = m"
| "init_delta (node # rest) m = init_delta rest (AList.update node 0 m)"

text \<open>One round of the sampling loop of \<^verbatim>\<open>select\<close>.\<close>

definition sample_dag :: "Graph \<Rightarrow> unode_int list \<Rightarrow> coins \<Rightarrow> (dag_cache \<times> coins) option" where
  "sample_dag graph activated g =
     (case tarjan graph g of
        None \<Rightarrow> None
      | Some (ccm, ccl, dag, g') \<Rightarrow>
          (let max_node = fst (max_degree_for dag (get_nodes dag) (0, 0));
               ccl' = remove_activated activated ccl;
               ds = bfs dag max_node [] False 0;
               as = ancestors_for dag max_node ds (get_nodes dag) []
           in Some (\<lparr>cc_i = ccm, cc_list_i = ccl', graphs_i = dag, A_i = as, D_i = ds,
                      h_i = max_node,
                      latest_i = init_latest (get_nodes dag) [],
                      delta_i = init_delta (get_nodes dag) []\<rparr>, g')))"

fun sample_loop ::
  "nat \<Rightarrow> Graph \<Rightarrow> unode_int list \<Rightarrow> coins \<Rightarrow> dag_cache list \<Rightarrow> (dag_cache list \<times> coins) option" where
  "sample_loop 0 graph activated g cs = Some (cs, g)"
| "sample_loop (Suc n) graph activated g cs =
     (case sample_dag graph activated g of
        None \<Rightarrow> None
      | Some (c, g') \<Rightarrow> sample_loop n graph activated g' (cs @ [c]))"

section \<open>Marginal gain and the update of a contracted graph\<close>

text \<open>The \<^verbatim>\<open>for\<close> over the neighbours inside \<^verbatim>\<open>gain\<close>; the state is the queue \<open>Q\<close> and
  the set \<open>X\<close>.\<close>

fun gain_for :: "Graph \<Rightarrow> edge list \<Rightarrow> unode_int list \<times> unode_int list
                 \<Rightarrow> unode_int list \<times> unode_int list" where
  "gain_for g [] s = s"
| "gain_for g (neigh # rest) (Q, X) =
     (if target neigh \<notin> set X \<and> has_node g (target neigh)
      then gain_for g rest (Q @ [target neigh], uset_insert (target neigh) X)
      else gain_for g rest (Q, X))"

lemma gain_for_progress:
  "gain_for g es (Q, X) = (Q', X') \<Longrightarrow>
   set X \<subseteq> set X' \<and>
   ((Q' = Q \<and> X' = X) \<or> (\<exists>x. has_node g x \<and> x \<notin> set X \<and> x \<in> set X'))"
proof (induction es arbitrary: Q X)
  case Nil
  then show ?case by simp
next
  case (Cons e es)
  show ?case
  proof (cases "target e \<notin> set X \<and> has_node g (target e)")
    case True
    with Cons.prems
    have run: "gain_for g es (Q @ [target e], uset_insert (target e) X) = (Q', X')"
      by simp
    from Cons.IH[OF run] have "set (uset_insert (target e) X) \<subseteq> set X'" by simp
    then have "set X \<subseteq> set X'" and "target e \<in> set X'" by simp_all
    with True show ?thesis by blast
  next
    case False
    with Cons.prems have "gain_for g es (Q, X) = (Q', X')" by auto
    from Cons.IH[OF this] show ?thesis .
  qed
qed

text \<open>The \<^verbatim>\<open>while (Q.size() != 0)\<close> loop of \<^verbatim>\<open>gain\<close>. It only writes \<^verbatim>\<open>delta[i][v]\<close>.\<close>

function gain_while ::
  "dag_cache \<Rightarrow> unode_int \<Rightarrow> unode_int list \<Rightarrow> unode_int list \<Rightarrow> unode_int list \<Rightarrow> dag_cache" where
  "gain_while c v sset [] X = c"
| "gain_while c v sset (u # Q) X =
     (if v \<in> set (A_i c) \<and> u \<in> set (D_i c) \<and> length sset = 0 then
        gain_while c v sset Q X
      else
        (let c1 = c\<lparr>delta_i := AList.update v
                       (delta_at (delta_i c) v + of_nat (length (cc_members (cc_list_i c) u)))
                       (delta_i c)\<rparr>
         in if has_neighbours (graphs_i c) u then
              (case gain_for (graphs_i c) (get_neighbours (graphs_i c) u) (Q, X) of
                 (Q', X') \<Rightarrow> gain_while c1 v sset Q' X')
            else gain_while c1 v sset Q X))"
  by pat_completeness auto

termination
proof (relation "inv_image (finite_psubset <*lex*> less_than)
                   (\<lambda>(c, v, sset, Q, X). (set (node_list (graphs_i c)) - set X, length Q))")
  show "wf (inv_image (finite_psubset <*lex*> less_than)
              (\<lambda>(c, v, sset, Q, X). (set (node_list (graphs_i c)) - set X, length Q)))"
    by (intro wf_inv_image wf_lex_prod wf_finite_psubset wf_less_than)
next
  fix c :: dag_cache and v u :: unode_int and sset Q X :: "unode_int list"
  have "((set (node_list (graphs_i c)) - set X, length Q),
         (set (node_list (graphs_i c)) - set X, length (u # Q)))
        \<in> finite_psubset <*lex*> less_than"
    by (intro lex_step_le) simp_all
  then show "((c, v, sset, Q, X), c, v, sset, u # Q, X)
       \<in> inv_image (finite_psubset <*lex*> less_than)
                   (\<lambda>(c, v, sset, Q, X). (set (node_list (graphs_i c)) - set X, length Q))"
    by simp
next
  fix c x :: dag_cache and v u :: unode_int and sset Q X xa y :: "unode_int list"
  assume x: "x = c\<lparr>delta_i := AList.update v
                       (delta_at (delta_i c) v + of_nat (length (cc_members (cc_list_i c) u)))
                       (delta_i c)\<rparr>"
    and r: "(xa, y) = gain_for (graphs_i c) (get_neighbours (graphs_i c) u) (Q, X)"
  from gain_for_progress[OF r[symmetric]]
  have mono: "set X \<subseteq> set y"
    and alt: "(xa = Q \<and> y = X) \<or> (\<exists>n. has_node (graphs_i c) n \<and> n \<notin> set X \<and> n \<in> set y)"
    by simp_all
  have g: "graphs_i x = graphs_i c" by (simp add: x)
  have sub: "set (node_list (graphs_i c)) - set y \<subseteq> set (node_list (graphs_i c)) - set X"
    using mono by (rule Diff_mono[OF subset_refl])
  from alt have "((set (node_list (graphs_i c)) - set y, length xa),
         (set (node_list (graphs_i c)) - set X, length (u # Q)))
        \<in> finite_psubset <*lex*> less_than"
  proof
    assume "xa = Q \<and> y = X"
    then show ?thesis by (intro lex_step_le) simp_all
  next
    assume "\<exists>n. has_node (graphs_i c) n \<and> n \<notin> set X \<and> n \<in> set y"
    then obtain n where n: "has_node (graphs_i c) n" "n \<notin> set X" "n \<in> set y" by blast
    show ?thesis
    proof (rule lex_step_less[where x = n])
      show "finite (set (node_list (graphs_i c)) - set X)" by simp
      show "set (node_list (graphs_i c)) - set y \<subseteq> set (node_list (graphs_i c)) - set X"
        by (rule sub)
      show "n \<in> set (node_list (graphs_i c)) - set X"
        using n by (simp add: has_node_def)
      show "n \<notin> set (node_list (graphs_i c)) - set y" using n by simp
    qed
  qed
  then show "((x, v, sset, xa, y), c, v, sset, u # Q, X)
       \<in> inv_image (finite_psubset <*lex*> less_than)
                   (\<lambda>(c, v, sset, Q, X). (set (node_list (graphs_i c)) - set X, length Q))"
    by (simp add: g)
next
  fix c x :: dag_cache and v u :: unode_int and sset Q X :: "unode_int list"
  assume x: "x = c\<lparr>delta_i := AList.update v
                       (delta_at (delta_i c) v + of_nat (length (cc_members (cc_list_i c) u)))
                       (delta_i c)\<rparr>"
  have g: "graphs_i x = graphs_i c" by (simp add: x)
  have "((set (node_list (graphs_i c)) - set X, length Q),
         (set (node_list (graphs_i c)) - set X, length (u # Q)))
        \<in> finite_psubset <*lex*> less_than"
    by (intro lex_step_le) simp_all
  then show "((x, v, sset, Q, X), c, v, sset, u # Q, X)
       \<in> inv_image (finite_psubset <*lex*> less_than)
                   (\<lambda>(c, v, sset, Q, X). (set (node_list (graphs_i c)) - set X, length Q))"
    by (simp add: g)
qed

text \<open>
  \<^verbatim>\<open>gain(i, node, set)\<close> on the structures of sample \<open>i\<close>. It returns the gain and the
  structures with the updated \<^verbatim>\<open>latest\<close> and \<^verbatim>\<open>delta\<close>. Dereferencing \<^verbatim>\<open>begin()\<close> of an
  empty set is undefined behaviour: the result \<open>None\<close>.
\<close>

function gain :: "dag_cache \<Rightarrow> unode_int \<Rightarrow> unode_int list \<Rightarrow> (rat \<times> dag_cache) option" where
  "gain c node sset =
     (let v = lookup0 (map_of (cc_i c)) node in
      if \<not> has_node (graphs_i c) v then Some (0, c)
      else if latest_at (latest_i c) v then Some (delta_at (delta_i c) v, c)
      else
        (let c1 = c\<lparr>latest_i := AList.update v True (latest_i c)\<rparr> in
         case (if v \<in> set (A_i c1) \<and> length sset = 0 then
                 (case cc_members (cc_list_i c1) (h_i c1) of
                    [] \<Rightarrow> None
                  | n0 # _ \<Rightarrow>
                      (case gain c1 n0 sset of
                         None \<Rightarrow> None
                       | Some r \<Rightarrow>
                           Some ((snd r)\<lparr>delta_i := AList.update v (fst r) (delta_i (snd r))\<rparr>)))
               else Some (c1\<lparr>delta_i := AList.update v 0 (delta_i c1)\<rparr>)) of
           None \<Rightarrow> None
         | Some c3 \<Rightarrow>
             (let c4 = gain_while c3 v sset [v] [v] in Some (delta_at (delta_i c4) v, c4))))"
  by pat_completeness auto

termination
proof (relation "measure (\<lambda>(c, node, sset).
                   card {u \<in> set (node_list (graphs_i c)). \<not> latest_at (latest_i c) u})")
  show "wf (measure (\<lambda>(c, node, sset).
                   card {u \<in> set (node_list (graphs_i c)). \<not> latest_at (latest_i c) u}))"
    by simp
next
  fix c xb :: dag_cache and node x x21 :: unode_int and sset x22 :: "unode_int list"
  assume x: "x = lookup0 (map_of (cc_i c)) node"
    and hn: "\<not> \<not> has_node (graphs_i c) x"
    and nl: "\<not> latest_at (latest_i c) x"
    and xb: "xb = c\<lparr>latest_i := AList.update x True (latest_i c)\<rparr>"
  let ?N = "set (node_list (graphs_i c))"
  have eq: "{u \<in> ?N. \<not> latest_at (latest_i xb) u}
            = {u \<in> ?N. \<not> latest_at (latest_i c) u} - {x}"
    by (auto simp: xb latest_at_def update_conv')
  have mem: "x \<in> {u \<in> ?N. \<not> latest_at (latest_i c) u}"
    using hn nl by (simp add: has_node_def)
  have "card ({u \<in> ?N. \<not> latest_at (latest_i c) u} - {x})
        < card {u \<in> ?N. \<not> latest_at (latest_i c) u}"
    using mem by (intro card_Diff1_less) simp_all
  then show "((xb, x21, sset), c, node, sset)
       \<in> measure (\<lambda>(c, node, sset).
                   card {u \<in> set (node_list (graphs_i c)). \<not> latest_at (latest_i c) u})"
    using eq by (simp add: xb)
qed

declare gain.simps [simp del]

text \<open>
  \<^verbatim>\<open>update_dag(i, node)\<close>. \<open>reaches_any\<close> is the inner \<^verbatim>\<open>for (auto u : desc)\<close> with its
  \<^verbatim>\<open>break\<close>: it says whether some \<^verbatim>\<open>bfs(v, i, reach, true, u)\<close> left \<open>reach\<close> non-empty.
\<close>

fun reaches_any :: "Graph \<Rightarrow> unode_int \<Rightarrow> unode_int list \<Rightarrow> bool" where
  "reaches_any g v [] = False"
| "reaches_any g v (u # rest) =
     (if length (bfs g v [] True u) \<noteq> 0 then True else reaches_any g v rest)"

fun update_latest_for ::
  "Graph \<Rightarrow> unode_int list \<Rightarrow> unode_int list \<Rightarrow> (unode_int \<times> bool) list
   \<Rightarrow> (unode_int \<times> bool) list" where
  "update_latest_for g desc [] lt = lt"
| "update_latest_for g desc (v # rest) lt =
     (if latest_at lt v \<and> reaches_any g v desc
      then update_latest_for g desc rest (AList.update v False lt)
      else update_latest_for g desc rest lt)"

fun remove_nodes :: "unode_int list \<Rightarrow> Graph \<Rightarrow> Graph" where
  "remove_nodes [] g = g"
| "remove_nodes (node # rest) g = remove_nodes rest (remove_node node g)"

definition update_dag :: "dag_cache \<Rightarrow> unode_int \<Rightarrow> dag_cache" where
  "update_dag c node =
     (let t = lookup0 (map_of (cc_i c)) node;
          desc = bfs (graphs_i c) t [] False 0;
          lt = update_latest_for (graphs_i c) desc (get_nodes (graphs_i c)) (latest_i c)
      in c\<lparr>latest_i := lt, graphs_i := remove_nodes desc (graphs_i c)\<rparr>)"

fun update_dags :: "dag_cache list \<Rightarrow> unode_int \<Rightarrow> dag_cache list" where
  "update_dags [] t = []"
| "update_dags (c # cs) t = update_dag c t # update_dags cs t"

section \<open>Seed selection\<close>

text \<open>
  The sum \<^verbatim>\<open>tot_val += gain(i, v, set)\<close> over the samples, from the running total given.
\<close>

fun total_gain ::
  "dag_cache list \<Rightarrow> unode_int \<Rightarrow> unode_int list \<Rightarrow> rat \<Rightarrow> (rat \<times> dag_cache list) option" where
  "total_gain [] v sset tot_val = Some (tot_val, [])"
| "total_gain (c # cs) v sset tot_val =
     (case gain c v sset of
        None \<Rightarrow> None
      | Some (d, c') \<Rightarrow>
          (case total_gain cs v sset (tot_val + d) of
             None \<Rightarrow> None
           | Some (tot, cs') \<Rightarrow> Some (tot, c' # cs')))"

text \<open>
  \<^verbatim>\<open>tot_val / (float)R_\<close>. With \<open>R_ = 0\<close> no gain was added, the quotient is
  \<open>0.0f / 0.0f\<close>, which is not a number (\<open>None\<close>), and \<^verbatim>\<open>>=\<close> is false on it.
\<close>

definition float_div :: "rat \<Rightarrow> nat \<Rightarrow> rat option" where
  "float_div x n = (if n = 0 then None else Some (x / of_nat n))"

definition float_ge :: "rat option \<Rightarrow> rat \<Rightarrow> bool" where
  "float_ge x y = (case x of None \<Rightarrow> False | Some a \<Rightarrow> a \<ge> y)"

text \<open>
  The \<^verbatim>\<open>for (auto v : graph.get_nodes())\<close> loop inside the main loop; the state is the
  per-sample structures, \<open>t\<close> and \<open>val_max\<close>.
\<close>

fun candidates_for ::
  "unode_int list \<Rightarrow> unode_int list \<Rightarrow> nat \<Rightarrow> unode_int list \<Rightarrow>
   dag_cache list \<times> unode_int \<times> rat \<Rightarrow> (dag_cache list \<times> unode_int \<times> rat) option" where
  "candidates_for [] activated R sset s = Some s"
| "candidates_for (v # rest) activated R sset (cs, t, val_max) =
     (if v \<notin> set activated then
        (case total_gain cs v sset 0 of
           None \<Rightarrow> None
         | Some (tot_val, cs') \<Rightarrow>
             (if float_ge (float_div tot_val R) val_max
              then candidates_for rest activated R sset (cs', v, the (float_div tot_val R))
              else candidates_for rest activated R sset (cs', t, val_max)))
      else candidates_for rest activated R sset (cs, t, val_max))"

text \<open>
  The main loop \<^verbatim>\<open>while (set.size() < k)\<close>. It need not end, so it is a partial function:
  \<open>None\<close> is a run that never leaves the loop, \<open>Some Undefined\<close> one that meets undefined
  behaviour, \<open>Some (Returns r)\<close> one that returns \<open>r\<close>.
\<close>

datatype 'a result = Undefined | Returns 'a

partial_function (option) select_while ::
  "Graph \<Rightarrow> unode_int list \<Rightarrow> nat \<Rightarrow> nat \<Rightarrow> dag_cache list \<Rightarrow> unode_int list
   \<Rightarrow> (unode_int list \<times> dag_cache list) result option" where
  [code]: "select_while graph activated k R cs sset =
     (if length sset < k then
        (case candidates_for (get_nodes graph) activated R sset (cs, 0, 0) of
           None \<Rightarrow> Some Undefined
         | Some (cs', t, val_max) \<Rightarrow>
             select_while graph activated k R (update_dags cs' t) (uset_insert t sset))
      else Some (Returns (sset, cs)))"

text \<open>
  The evaluator object: the number of samples \<^verbatim>\<open>R_\<close> (here \<open>ev_R\<close>), the generator (seeded from
  \<^verbatim>\<open>std::random_device\<close> by the constructor and never reseeded) and the per-sample
  structures, which \<^verbatim>\<open>select\<close> clears on entry.
\<close>

record OhsakaEvaluator =
  ev_R :: nat
  ev_gen :: coins
  caches :: "dag_cache list"

definition select ::
  "OhsakaEvaluator \<Rightarrow> Graph \<Rightarrow> unode_int list \<Rightarrow> nat
   \<Rightarrow> (unode_int list \<times> OhsakaEvaluator) result option" where
  "select ev graph activated k =
     (case sample_loop (ev_R ev) graph activated (ev_gen ev) [] of
        None \<Rightarrow> Some Undefined
      | Some (cs, g') \<Rightarrow>
          (case select_while graph activated k (ev_R ev) cs [] of
             None \<Rightarrow> None
           | Some Undefined \<Rightarrow> Some Undefined
           | Some (Returns (sset, cs')) \<Rightarrow>
               Some (Returns (sset, ev\<lparr>ev_gen := g', caches := cs'\<rparr>))))"

section \<open>The command-line driver\<close>

text \<open>
  \<^verbatim>\<open>main.cpp\<close> reads the graph with \<^verbatim>\<open>while (file >> src >> tgt >> prob)\<close>. The stream
  library is outside the model: the input is the list of the outcomes of the successive
  attempts to extract one triple, \<open>Some (src, tgt, prob)\<close> when the three extractions
  succeed and \<open>None\<close> when the stream fails (a token that is not a number, a triple cut
  short). The end of the list is the end of the file, where the extraction fails as well.
  The \<^verbatim>\<open>double\<close> read into \<open>prob\<close> is stored and never computed with; it is a real.
\<close>

type_synonym edge_stream = "(nat \<times> nat \<times> real) option list"

text \<open>The loading loop of \<^verbatim>\<open>real\<close>; the state is the graph and the counter \<open>edges\<close>.\<close>

fun load_single :: "edge_stream \<Rightarrow> Graph \<times> nat \<Rightarrow> Graph \<times> nat" where
  "load_single [] s = s"
| "load_single (None # rest) s = s"
| "load_single (Some (src, tgt, prob) # rest) (original_graph, edges) =
     load_single rest (add_edge src tgt (SingleInfluence prob) original_graph, edges + 1)"

text \<open>The loading loop of \<^verbatim>\<open>prior\<close>, \<^verbatim>\<open>benchmark\<close> and \<^verbatim>\<open>spread\<close>.\<close>

fun load_beta :: "real \<Rightarrow> real \<Rightarrow> edge_stream \<Rightarrow> Graph \<times> nat \<Rightarrow> Graph \<times> nat" where
  "load_beta alpha beta [] s = s"
| "load_beta alpha beta (None # rest) s = s"
| "load_beta alpha beta (Some (src, tgt, prob) # rest) (graph, edges) =
     load_beta alpha beta rest (add_edge src tgt (BetaInfluence alpha beta prob) graph, edges + 1)"

text \<open>The loading loop of \<^verbatim>\<open>explore\<close>, \<^verbatim>\<open>epsgreedy\<close>, \<^verbatim>\<open>expgr\<close> and \<^verbatim>\<open>zscore\<close>.\<close>

fun load_both ::
  "real \<Rightarrow> real \<Rightarrow> edge_stream \<Rightarrow> Graph \<times> Graph \<times> nat \<Rightarrow> Graph \<times> Graph \<times> nat" where
  "load_both alpha beta [] s = s"
| "load_both alpha beta (None # rest) s = s"
| "load_both alpha beta (Some (src, tgt, prob) # rest) (original_graph, model_graph, edges) =
     load_both alpha beta rest
       (add_edge src tgt (SingleInfluence prob) original_graph,
        add_edge src tgt (BetaInfluence alpha beta prob) model_graph, edges + 1)"

datatype Evaluator =
    CELFEvaluator
  | RandomEvaluator
  | DiscountDegreeEvaluator
  | TIMEvaluator
  | HighestDegreeEvaluator

datatype Strategy =
    OriginalGraphStrategy
  | EpsilonGreedyStrategy
  | ExponentiatedGradientStrategy
  | ZScoresStrategy

text \<open>
  What a mode does once the graph is loaded and the arguments are converted. The
  strategies are absent code; a call of \<^verbatim>\<open>strategy.perform(budget, k, ...)\<close> is recorded with
  the graphs and evaluators given to the constructor, in the order of its arguments, and
  with \<open>budget\<close> and \<open>k\<close>. The other outcomes are \<^verbatim>\<open>exit(code)\<close> after a message on the
  error stream, and the \<^verbatim>\<open>std::out_of_range\<close> thrown by \<^verbatim>\<open>evals.at\<close>, which nothing
  catches. The optional arguments do not affect any of this and are left out.
\<close>

record perform_call =
  strategy :: Strategy
  graphs_arg :: "Graph list"
  evaluators_arg :: "Evaluator list"
  budget_arg :: "32 word"
  k_arg :: "32 word"

datatype outcome =
    Exit nat string
  | Out_of_range
  | Perform perform_call

text \<open>\<^verbatim>\<open>evals.at(i)\<close>.\<close>

definition vector_at :: "'a list \<Rightarrow> nat \<Rightarrow> 'a option" where
  "vector_at xs i = (if i < length xs then Some (xs ! i) else None)"

text \<open>
  The modes. An argument such as \<open>a3\<close> is the \<^verbatim>\<open>int\<close> that \<^verbatim>\<open>atoi(argv[3])\<close> returns; the
  source stores it in an \<^verbatim>\<open>unsigned int\<close>.
\<close>

definition real_mode :: "edge_stream \<Rightarrow> int \<Rightarrow> int \<Rightarrow> int \<Rightarrow> outcome" where
  "real_mode file a3 a4 a5 =
     (let original_graph = fst (load_single file (empty_graph, 0));
          exploit = (word_of_int a3 :: 32 word);
          budget = (word_of_int a4 :: 32 word);
          k = (word_of_int a5 :: 32 word);
          evals = [CELFEvaluator, RandomEvaluator, DiscountDegreeEvaluator, TIMEvaluator,
                   HighestDegreeEvaluator]
      in case vector_at evals (unat exploit) of
           None \<Rightarrow> Out_of_range
         | Some ev \<Rightarrow>
             Perform \<lparr>strategy = OriginalGraphStrategy, graphs_arg = [original_graph],
                      evaluators_arg = [ev], budget_arg = budget, k_arg = k\<rparr>)"

definition prior_mode :: "edge_stream \<Rightarrow> real \<Rightarrow> real \<Rightarrow> int \<Rightarrow> int \<Rightarrow> int \<Rightarrow> outcome" where
  "prior_mode file alpha beta a5 a6 a7 =
     (let original_graph = fst (load_beta alpha beta file (empty_graph, 0));
          exploit = (word_of_int a5 :: 32 word);
          budget = (word_of_int a6 :: 32 word);
          k = (word_of_int a7 :: 32 word);
          evals = [CELFEvaluator, RandomEvaluator, DiscountDegreeEvaluator, TIMEvaluator]
      in case vector_at evals (unat exploit) of
           None \<Rightarrow> Out_of_range
         | Some ev \<Rightarrow>
             Perform \<lparr>strategy = OriginalGraphStrategy, graphs_arg = [original_graph],
                      evaluators_arg = [ev], budget_arg = budget, k_arg = k\<rparr>)"

definition explore_mode :: "edge_stream \<Rightarrow> real \<Rightarrow> real \<Rightarrow> int \<Rightarrow> int \<Rightarrow> int \<Rightarrow> outcome" where
  "explore_mode file alpha beta a5 a6 a7 =
     (let gs = load_both alpha beta file (empty_graph, empty_graph, 0);
          original_graph = fst gs;
          model_graph = fst (snd gs);
          explore = (word_of_int a5 :: 32 word);
          budget = (word_of_int a6 :: 32 word);
          k = (word_of_int a7 :: 32 word);
          evals = [RandomEvaluator, DiscountDegreeEvaluator, CELFEvaluator, TIMEvaluator]
      in case vector_at evals (unat explore) of
           None \<Rightarrow> Out_of_range
         | Some ev \<Rightarrow>
             Perform \<lparr>strategy = EpsilonGreedyStrategy,
                      graphs_arg = [model_graph, original_graph],
                      evaluators_arg = [ev, ev], budget_arg = budget, k_arg = k\<rparr>)"

text \<open>In \<^verbatim>\<open>epsgreedy\<close> the constructor takes \<^verbatim>\<open>*evals.at(explore)\<close> first and
  \<^verbatim>\<open>*evals.at(exploit)\<close> second.\<close>

definition epsgreedy_mode ::
  "edge_stream \<Rightarrow> real \<Rightarrow> real \<Rightarrow> int \<Rightarrow> int \<Rightarrow> int \<Rightarrow> int \<Rightarrow> outcome" where
  "epsgreedy_mode file alpha beta a5 a6 a7 a8 =
     (let gs = load_both alpha beta file (empty_graph, empty_graph, 0);
          original_graph = fst gs;
          model_graph = fst (snd gs);
          exploit = (word_of_int a5 :: 32 word);
          explore = (word_of_int a6 :: 32 word);
          budget = (word_of_int a7 :: 32 word);
          k = (word_of_int a8 :: 32 word);
          evals = [CELFEvaluator, RandomEvaluator, DiscountDegreeEvaluator, TIMEvaluator]
      in case vector_at evals (unat explore) of
           None \<Rightarrow> Out_of_range
         | Some ev_explore \<Rightarrow>
             (case vector_at evals (unat exploit) of
                None \<Rightarrow> Out_of_range
              | Some ev_exploit \<Rightarrow>
                  Perform \<lparr>strategy = EpsilonGreedyStrategy,
                           graphs_arg = [model_graph, original_graph],
                           evaluators_arg = [ev_explore, ev_exploit],
                           budget_arg = budget, k_arg = k\<rparr>))"

definition expgr_mode :: "edge_stream \<Rightarrow> real \<Rightarrow> real \<Rightarrow> int \<Rightarrow> int \<Rightarrow> int \<Rightarrow> outcome" where
  "expgr_mode file alpha beta a5 a6 a7 =
     (let exploit = (word_of_int a5 :: 32 word);
          budget = (word_of_int a6 :: 32 word);
          k = (word_of_int a7 :: 32 word);
          gs = load_both alpha beta file (empty_graph, empty_graph, 0);
          original_graph = fst gs;
          model_graph = fst (snd gs);
          call = (\<lambda>evaluator.
             Perform \<lparr>strategy = ExponentiatedGradientStrategy,
                      graphs_arg = [model_graph, original_graph],
                      evaluators_arg = [evaluator], budget_arg = budget, k_arg = k\<rparr>)
      in if exploit = 0 then call CELFEvaluator
         else if exploit = 1 then call RandomEvaluator
         else if exploit = 2 then call DiscountDegreeEvaluator
         else if exploit = 3 then call TIMEvaluator
         else Exit 1 ''Error: `exploit` must be in range 0..3'')"

definition zscore_mode :: "edge_stream \<Rightarrow> real \<Rightarrow> real \<Rightarrow> int \<Rightarrow> int \<Rightarrow> int \<Rightarrow> outcome" where
  "zscore_mode file alpha beta a5 a6 a7 =
     (let gs = load_both alpha beta file (empty_graph, empty_graph, 0);
          original_graph = fst gs;
          model_graph = fst (snd gs);
          exploit = (word_of_int a5 :: 32 word);
          budget = (word_of_int a6 :: 32 word);
          k = (word_of_int a7 :: 32 word);
          evals = [CELFEvaluator, RandomEvaluator, DiscountDegreeEvaluator, TIMEvaluator]
      in case vector_at evals (unat exploit) of
           None \<Rightarrow> Out_of_range
         | Some ev \<Rightarrow>
             Perform \<lparr>strategy = ZScoresStrategy,
                      graphs_arg = [model_graph, original_graph],
                      evaluators_arg = [ev], budget_arg = budget, k_arg = k\<rparr>)"


text \<open>The evaluators a mode hands to its strategy, when it gets that far.\<close>

definition chosen :: "outcome \<Rightarrow> Evaluator list option" where
  "chosen out = (case out of Perform c \<Rightarrow> Some (evaluators_arg c) | _ \<Rightarrow> None)"

section \<open>Example inputs\<close>

text \<open>
  The graph read from the one-line edge list \<^verbatim>\<open>0 1 0.5\<close>, and the graph read from the three
  lines \<^verbatim>\<open>0 1 0.5\<close>, \<^verbatim>\<open>0 2 0.5\<close>, \<^verbatim>\<open>1 2 0.5\<close>.
\<close>

definition example_graph :: Graph where
  "example_graph = add_edge 0 1 (SingleInfluence (1 / 2)) empty_graph"

definition example_graph3 :: Graph where
  "example_graph3 =
     add_edge 1 2 (SingleInfluence (1 / 2))
       (add_edge 0 2 (SingleInfluence (1 / 2))
          (add_edge 0 1 (SingleInfluence (1 / 2)) empty_graph))"

text \<open>
  The structures that one round of the sampling loop builds for \<open>example_graph\<close> when its
  arc is live: node 1 is component 0, node 0 is component 1, and the contracted graph has
  the arc from 1 to 0.
\<close>

definition example_cache :: dag_cache where
  "example_cache =
     \<lparr>cc_i = [(1, 0), (0, 1)], cc_list_i = [(0, [1]), (1, [0])],
      graphs_i = \<lparr>node_list = [0, 1],
                   adj_list = [(1, [\<lparr>target = 0, dist = SingleInfluence 1\<rparr>])]\<rparr>,
      A_i = [], D_i = [0], h_i = 1,
      latest_i = [(0, False), (1, False)], delta_i = [(0, 0), (1, 0)]\<rparr>"

text \<open>
  The structures of \<open>example_cache\<close> after the first round of the main loop with no node
  activated, and after the second round.
\<close>

definition example_cache_first :: dag_cache where
  "example_cache_first =
     \<lparr>cc_i = [(1, 0), (0, 1)], cc_list_i = [(0, [1]), (1, [0])],
      graphs_i = \<lparr>node_list = [1],
                   adj_list = [(1, [\<lparr>target = 0, dist = SingleInfluence 1\<rparr>])]\<rparr>,
      A_i = [], D_i = [0], h_i = 1,
      latest_i = [(0, True), (1, False)], delta_i = [(0, 1), (1, 2)]\<rparr>"

definition example_cache_fixed :: dag_cache where
  "example_cache_fixed =
     \<lparr>cc_i = [(1, 0), (0, 1)], cc_list_i = [(0, [1]), (1, [0])],
      graphs_i = \<lparr>node_list = [1],
                   adj_list = [(1, [\<lparr>target = 0, dist = SingleInfluence 1\<rparr>])]\<rparr>,
      A_i = [], D_i = [0], h_i = 1,
      latest_i = [(0, True), (1, False)], delta_i = [(0, 1), (1, 1)]\<rparr>"

text \<open>
  The structures that one round of the sampling loop builds for \<open>example_graph\<close> when its
  arc is not live: each node is a component of its own and the contracted graph has no arc.
\<close>

definition example_cache_idle :: dag_cache where
  "example_cache_idle =
     \<lparr>cc_i = [(0, 0), (1, 1)], cc_list_i = [(0, [0]), (1, [1])],
      graphs_i = \<lparr>node_list = [0, 1], adj_list = []\<rparr>,
      A_i = [], D_i = [], h_i = 1,
      latest_i = [(0, False), (1, False)], delta_i = [(0, 0), (1, 0)]\<rparr>"

text \<open>The structures of \<open>example_cache_idle\<close> after the first round of the main loop with no
  node activated.\<close>

definition example_cache_idle_first :: dag_cache where
  "example_cache_idle_first =
     \<lparr>cc_i = [(0, 0), (1, 1)], cc_list_i = [(0, [0]), (1, [1])],
      graphs_i = \<lparr>node_list = [0, 1], adj_list = []\<rparr>,
      A_i = [], D_i = [], h_i = 1,
      latest_i = [(0, True), (1, True)], delta_i = [(0, 1), (1, 1)]\<rparr>"

text \<open>
  \<^verbatim>\<open>OhsakaEvaluator(R)\<close>: the constructor seeds \<^verbatim>\<open>gen\<close> with \<^verbatim>\<open>rd()\<close>, a value of
  \<^verbatim>\<open>std::random_device\<close>. The second argument is the generator state this gives.
\<close>

definition new_evaluator :: "nat \<Rightarrow> coins \<Rightarrow> OhsakaEvaluator" where
  "new_evaluator R rd = \<lparr>ev_R = R, ev_gen = rd, caches = []\<rparr>"

section \<open>Notions used in the claims\<close>

text \<open>The seed set of a result of \<open>select\<close>.\<close>

definition seeds :: "(unode_int list \<times> OhsakaEvaluator) result option \<Rightarrow> unode_int list result option" where
  "seeds r = map_option (map_result fst) r"


text \<open>
  The table of evaluator indices as the spec words it: 0 is CELF, 1 Random,
  2 DiscountDegree, 3 TIM, 4 HighestDegree.
\<close>

definition spec_table :: "Evaluator list" where
  "spec_table = [CELFEvaluator, RandomEvaluator, DiscountDegreeEvaluator, TIMEvaluator,
                 HighestDegreeEvaluator]"



text \<open>
  One round of the main loop of \<^verbatim>\<open>select\<close>, from the per-sample structures and the seed set
  before it to those after it.
\<close>

definition loop_step ::
  "Graph \<Rightarrow> unode_int list \<Rightarrow> nat \<Rightarrow> dag_cache list \<times> unode_int list
   \<Rightarrow> (dag_cache list \<times> unode_int list) option" where
  "loop_step graph activated R s =
     (case candidates_for (get_nodes graph) activated R (snd s) (fst s, 0, 0) of
        None \<Rightarrow> None
      | Some (cs', t, val_max) \<Rightarrow> Some (update_dags cs' t, uset_insert t (snd s)))"



text \<open>
  The generator \<open>n\<close> draws further, and two generators whose first \<open>n\<close> outcomes are the
  same.
\<close>

definition shiftn :: "nat \<Rightarrow> coins \<Rightarrow> coins" where
  "shiftn n c = (\<lambda>j. c (j + n))"

definition agree :: "nat \<Rightarrow> coins \<Rightarrow> coins \<Rightarrow> bool" where
  "agree n c d = (\<forall>j<n. c j = d j)"

section \<open>Properties of the search and of the graph update\<close>

lemma bfs_for_collect:
  "bfs_for node False to_node es (q, vis, col) = (b, q', vis', col') \<Longrightarrow>
   \<not> b \<and> set q' \<subseteq> set q \<union> target ` set es \<and>
   set col' \<subseteq> set col \<union> (target ` set es - set vis) \<and> set vis \<subseteq> set vis'"
proof (induction es arbitrary: q vis col)
  case Nil
  then show ?case by simp
next
  case (Cons e es)
  show ?case
  proof (cases "target e \<in> set vis")
    case True
    with Cons.prems have "bfs_for node False to_node es (q, vis, col) = (b, q', vis', col')"
      by simp
    from Cons.IH[OF this] show ?thesis by auto
  next
    case False
    with Cons.prems have "bfs_for node False to_node es
        (q @ [target e], uset_insert (target e) vis, uset_insert (target e) col)
        = (b, q', vis', col')"
      by simp
    from Cons.IH[OF this] False show ?thesis by auto
  qed
qed

lemma arcs_neighbour: "e \<in> set (get_neighbours g u) \<Longrightarrow> (u, target e) \<in> arcs g"
  by (auto simp: arcs_def)

lemma bfs_while_collect:
  "\<not> to \<Longrightarrow> node \<in> set vis \<Longrightarrow> \<forall>x \<in> set q. (node, x) \<in> (arcs g)\<^sup>* \<Longrightarrow>
   set (bfs_while g node to to_node q vis col)
     \<subseteq> set col \<union> ({x. (node, x) \<in> (arcs g)\<^sup>+} - {node})"
proof (induction g node to to_node q vis col rule: bfs_while.induct)
  case (1 g node to to_node vis col)
  then show ?case by simp
next
  case (2 g node to to_node cur_node q vis col)
  from "2.prems"(1) have toF: "to = False" by simp
  note prems = "2.prems"(2,3)
  have cur: "(node, cur_node) \<in> (arcs g)\<^sup>*" using prems(2) by simp
  show ?case
  proof (cases "has_neighbours g cur_node")
    case False
    have "set (bfs_while g node to to_node q (uset_insert cur_node vis) col)
          \<subseteq> set col \<union> ({x. (node, x) \<in> (arcs g)\<^sup>+} - {node})"
      using "2.prems" by (intro "2.IH"(2)[OF False]) simp_all
    with False show ?thesis by simp
  next
    case True
    obtain b q' vis' col' where run:
      "bfs_for node to to_node (get_neighbours g cur_node) (q, uset_insert cur_node vis, col)
       = (b, q', vis', col')"
      by (metis prod_cases4)
    from bfs_for_collect[OF run[unfolded toF]]
    have nb: "\<not> b"
      and qs: "set q' \<subseteq> set q \<union> target ` set (get_neighbours g cur_node)"
      and cs: "set col' \<subseteq> set col \<union> (target ` set (get_neighbours g cur_node)
                                        - set (uset_insert cur_node vis))"
      and vs: "set (uset_insert cur_node vis) \<subseteq> set vis'"
      by simp_all
    have step: "\<And>x. x \<in> target ` set (get_neighbours g cur_node) \<Longrightarrow> (node, x) \<in> (arcs g)\<^sup>+"
    proof -
      fix x assume "x \<in> target ` set (get_neighbours g cur_node)"
      then have "(cur_node, x) \<in> arcs g" by (auto simp: arcs_neighbour)
      with cur show "(node, x) \<in> (arcs g)\<^sup>+" by (rule rtrancl_into_trancl1)
    qed
    have nvis: "node \<in> set vis'" using vs prems(1) by auto
    have qreach: "\<forall>x \<in> set q'. (node, x) \<in> (arcs g)\<^sup>*"
    proof
      fix x assume "x \<in> set q'"
      with qs have "x \<in> set q \<or> x \<in> target ` set (get_neighbours g cur_node)" by blast
      then show "(node, x) \<in> (arcs g)\<^sup>*"
        using prems(2) step by (auto intro: trancl_into_rtrancl)
    qed
    from nb have bF: "b = False" by simp
    have ih: "set (bfs_while g node to to_node q' vis' col')
          \<subseteq> set col' \<union> ({x. (node, x) \<in> (arcs g)\<^sup>+} - {node})"
      by (rule "2.IH"(1)[OF True run[unfolded bF, symmetric] refl refl refl "2.prems"(1) nvis qreach])
    have "set col' \<subseteq> set col \<union> ({x. (node, x) \<in> (arcs g)\<^sup>+} - {node})"
    proof
      fix x assume "x \<in> set col'"
      with cs have "x \<in> set col \<or> (x \<in> target ` set (get_neighbours g cur_node)
                       \<and> x \<notin> set (uset_insert cur_node vis))" by blast
      then show "x \<in> set col \<union> ({x. (node, x) \<in> (arcs g)\<^sup>+} - {node})"
      proof
        assume "x \<in> set col" then show ?thesis by simp
      next
        assume a: "x \<in> target ` set (get_neighbours g cur_node)
                       \<and> x \<notin> set (uset_insert cur_node vis)"
        then have "(node, x) \<in> (arcs g)\<^sup>+" using step by blast
        moreover from a prems(1) have "x \<noteq> node" by auto
        ultimately show ?thesis by simp
      qed
    qed
    with ih have "set (bfs_while g node to to_node q' vis' col')
          \<subseteq> set col \<union> ({x. (node, x) \<in> (arcs g)\<^sup>+} - {node})"
      by blast
    with True run bF show ?thesis by simp
  qed
qed

lemma bfs_descendants:
  "set (bfs g node [] False to_node) \<subseteq> {x. (node, x) \<in> (arcs g)\<^sup>+} - {node}"
proof -
  have "set (bfs_while g node False to_node [node] [node] [])
        \<subseteq> set [] \<union> ({x. (node, x) \<in> (arcs g)\<^sup>+} - {node})"
    by (rule bfs_while_collect) simp_all
  then show ?thesis by (simp add: bfs_def)
qed

lemma has_node_remove_nodes:
  "has_node (remove_nodes ds g) x = (has_node g x \<and> x \<notin> set ds)"
  by (induction ds arbitrary: g) (auto simp: has_node_def remove_node_def)

section \<open>Properties of the component structures\<close>









section \<open>Properties of the driver\<close>


lemma less_5_cases: "i < 5 \<Longrightarrow> i = 0 \<or> i = 1 \<or> i = 2 \<or> i = 3 \<or> i = (4::nat)"
  by arith

lemma less_4_cases: "i < 4 \<Longrightarrow> i = 0 \<or> i = 1 \<or> i = 2 \<or> i = (3::nat)"
  by arith




section \<open>Properties of the main loop\<close>

lemma select_while_step:
  assumes "length sset < k"
    and "loop_step graph activated R (cs, sset) = Some (cs', sset')"
  shows "select_while graph activated k R cs sset = select_while graph activated k R cs' sset'"
  using assms
  by (subst select_while.simps) (auto simp: loop_step_def split: option.splits)

lemma select_while_diverges:
  assumes less: "length sset < k"
    and fp: "loop_step graph activated R (cs, sset) = Some (cs, sset)"
  shows "select_while graph activated k R cs sset = None"
proof (rule ccontr)
  assume "select_while graph activated k R cs sset \<noteq> None"
  then obtain y where y: "select_while graph activated k R cs sset = Some y" by auto
  have "(graph, activated, k, R, cs, sset) \<noteq> (graph, activated, k, R, cs, sset)"
  proof (rule select_while.raw_induct[where
        P = "\<lambda>g a k' r c s z. (g, a, k', r, c, s) \<noteq> (graph, activated, k, R, cs, sset)",
        OF _ y])
    fix f :: "Graph \<Rightarrow> unode_int list \<Rightarrow> nat \<Rightarrow> nat \<Rightarrow> dag_cache list \<Rightarrow> unode_int list
              \<Rightarrow> (unode_int list \<times> dag_cache list) result option"
      and g a k' r c s z
    assume IH: "\<And>g a k' r c s z. f g a k' r c s = Some z \<Longrightarrow>
                  (g, a, k', r, c, s) \<noteq> (graph, activated, k, R, cs, sset)"
      and body: "(if length s < k'
                  then case candidates_for (get_nodes g) a r s (c, 0, 0) of
                         None \<Rightarrow> Some Undefined
                       | Some (cs', t, val_max) \<Rightarrow>
                           f g a k' r (update_dags cs' t) (uset_insert t s)
                  else Some (Returns (s, c))) = Some z"
    show "(g, a, k', r, c, s) \<noteq> (graph, activated, k, R, cs, sset)"
    proof
      assume e: "(g, a, k', r, c, s) = (graph, activated, k, R, cs, sset)"
      with body less fp have "f graph activated k R cs sset = Some z"
        by (auto simp: loop_step_def split: option.splits)
      from IH[OF this] show False by simp
    qed
  qed
  then show False by simp
qed



section \<open>Sampling always returns\<close>








section \<open>Sampling reads a prefix of the draws\<close>

lemma shiftn_0 [simp]: "shiftn 0 c = c"
  by (simp add: shiftn_def)





lemma agree_0 [simp]: "agree 0 c d"
  by (simp add: agree_def)

lemma gen_update_last [simp]:
  "lowlink_update f1 (gen_update h st) = gen_update h (lowlink_update f1 st)"
  "index_update f2 (gen_update h st) = gen_update h (index_update f2 st)"
  "pred_update f3 (gen_update h st) = gen_update h (pred_update f3 st)"
  "visited_update f4 (gen_update h st) = gen_update h (visited_update f4 st)"
  "vis_stack_update f5 (gen_update h st) = gen_update h (vis_stack_update f5 st)"
  "cur_index_update f6 (gen_update h st) = gen_update h (cur_index_update f6 st)"
  "cur_cc_update f7 (gen_update h st) = gen_update h (cur_cc_update f7 st)"
  "cur_cc_list_update f8 (gen_update h st) = gen_update h (cur_cc_list_update f8 st)"
  "cur_num_cc_update f9 (gen_update h st) = gen_update h (cur_num_cc_update f9 st)"
  by (cases st; simp)+











section \<open>The claims\<close>

text \<open>
  C1. On the graph with the one arc from 0 to 1, with both nodes activated and \<open>k = 1\<close>,
  no node passes the test \<^verbatim>\<open>activated.find(v) == activated.end()\<close>, \<open>t\<close> keeps its initial
  value 0, and \<^verbatim>\<open>select\<close> returns the set that holds the activated node 0.
\<close>

theorem select_inserts_activated_node: "seeds (select (new_evaluator 1 (\<lambda>_. True)) example_graph [0, 1] 1) = Some (Returns [0])"
  by code_simp

text \<open>
  C2. On the graph with the one arc from 0 to 1, with no node activated, \<^verbatim>\<open>select\<close> never
  returns for \<open>k = 3\<close> when the arc is live: after the first round the seed set is \<open>{0}\<close>,
  every later round picks node 0 again, and from the second round on a round leaves the seed
  set and the structures as they are. Nor does it return for \<open>k = 2\<close> when the arc is not
  live, although two nodes are not activated: every round picks node 1.
\<close>

theorem select_never_returns:
  "select (new_evaluator 1 (\<lambda>_. True)) example_graph [] 3 = None \<and>
   select (new_evaluator 1 (\<lambda>_. False)) example_graph [] 2 = None"
proof
  have "map_option fst (sample_loop 1 example_graph [] (\<lambda>_. True) []) = Some [example_cache]"
    by code_simp
  then obtain g' where sl: "sample_loop 1 example_graph [] (\<lambda>_. True) [] = Some ([example_cache], g')"
    by (cases "sample_loop 1 example_graph [] (\<lambda>_. True) []") auto
  have s1: "loop_step example_graph [] 1 ([example_cache], []) = Some ([example_cache_first], [0])"
    by code_simp
  have s2: "loop_step example_graph [] 1 ([example_cache_first], [0])
            = Some ([example_cache_fixed], [0])"
    by code_simp
  have s3: "loop_step example_graph [] 1 ([example_cache_fixed], [0])
            = Some ([example_cache_fixed], [0])"
    by code_simp
  have "select_while example_graph [] 3 1 [example_cache] []
        = select_while example_graph [] 3 1 [example_cache_first] [0]"
    by (rule select_while_step[OF _ s1]) simp
  also have "\<dots> = select_while example_graph [] 3 1 [example_cache_fixed] [0]"
    by (rule select_while_step[OF _ s2]) simp
  also have "\<dots> = None"
    by (rule select_while_diverges[OF _ s3]) simp
  finally have d: "select_while example_graph [] 3 1 [example_cache] [] = None" .
  have e: "ev_R (new_evaluator 1 (\<lambda>_. True)) = 1"
    "ev_gen (new_evaluator 1 (\<lambda>_. True)) = (\<lambda>_. True)"
    by (simp_all add: new_evaluator_def)
  show "select (new_evaluator 1 (\<lambda>_. True)) example_graph [] 3 = None"
    unfolding select_def e sl using d by simp
next
  have "map_option fst (sample_loop 1 example_graph [] (\<lambda>_. False) [])
        = Some [example_cache_idle]"
    by code_simp
  then obtain g' where
    sl: "sample_loop 1 example_graph [] (\<lambda>_. False) [] = Some ([example_cache_idle], g')"
    by (cases "sample_loop 1 example_graph [] (\<lambda>_. False) []") auto
  have s1: "loop_step example_graph [] 1 ([example_cache_idle], [])
            = Some ([example_cache_idle_first], [1])"
    by code_simp
  have s2: "loop_step example_graph [] 1 ([example_cache_idle_first], [1])
            = Some ([example_cache_idle_first], [1])"
    by code_simp
  have "select_while example_graph [] 2 1 [example_cache_idle] []
        = select_while example_graph [] 2 1 [example_cache_idle_first] [1]"
    by (rule select_while_step[OF _ s1]) simp
  also have "\<dots> = None"
    by (rule select_while_diverges[OF _ s2]) simp
  finally have d: "select_while example_graph [] 2 1 [example_cache_idle] [] = None" .
  have e: "ev_R (new_evaluator 1 (\<lambda>_. False)) = 1"
    "ev_gen (new_evaluator 1 (\<lambda>_. False)) = (\<lambda>_. False)"
    by (simp_all add: new_evaluator_def)
  show "select (new_evaluator 1 (\<lambda>_. False)) example_graph [] 2 = None"
    unfolding select_def e sl using d by simp
qed

text \<open>
  C3, as the spec states it, fails: in the explore mode index 0 selects the Random
  evaluator, not CELF.
\<close>

theorem explore_index_counterexample:
  "chosen (explore_mode [Some (0, 1, 1 / 2)] 1 1 0 1 1) = Some [RandomEvaluator, RandomEvaluator]"
  by (simp add: explore_mode_def chosen_def vector_at_def Let_def)

text \<open>
  C3, amended. In the real, prior, egreedy, eg and zsc modes index 0 selects CELF, 1 Random,
  2 DiscountDegree and 3 TIM, and in the real mode 4 selects HighestDegree. The explore
  mode has a table of its own: 0 selects Random, 1 DiscountDegree, 2 CELF and 3 TIM.
\<close>

theorem evaluator_index_tables:
  "(i < 5 \<longrightarrow> chosen (real_mode file (int i) b k) = Some [spec_table ! i]) \<and>
   (i < 4 \<longrightarrow> chosen (prior_mode file al be (int i) b k) = Some [spec_table ! i]) \<and>
   (i < 4 \<and> j < 4 \<longrightarrow>
      chosen (epsgreedy_mode file al be (int i) (int j) b k) = Some [spec_table ! j, spec_table ! i]) \<and>
   (i < 4 \<longrightarrow> chosen (expgr_mode file al be (int i) b k) = Some [spec_table ! i]) \<and>
   (i < 4 \<longrightarrow> chosen (zscore_mode file al be (int i) b k) = Some [spec_table ! i]) \<and>
   (i < 4 \<longrightarrow> chosen (explore_mode file al be (int i) b k)
      = Some [[RandomEvaluator, DiscountDegreeEvaluator, CELFEvaluator, TIMEvaluator] ! i,
              [RandomEvaluator, DiscountDegreeEvaluator, CELFEvaluator, TIMEvaluator] ! i])"
proof (intro conjI impI)
  assume "i < 5"
  from less_5_cases[OF \<open>i < 5\<close>]
  show "chosen (real_mode file (int i) b k) = Some [spec_table ! i]"
    by (auto simp add: real_mode_def chosen_def vector_at_def Let_def spec_table_def)
next
  assume "i < 4"
  from less_4_cases[OF \<open>i < 4\<close>]
  show "chosen (prior_mode file al be (int i) b k) = Some [spec_table ! i]"
    by (auto simp add: prior_mode_def chosen_def vector_at_def Let_def spec_table_def)
next
  assume "i < 4 \<and> j < 4"
  then have "i = 0 \<or> i = 1 \<or> i = 2 \<or> i = 3" and "j = 0 \<or> j = 1 \<or> j = 2 \<or> j = 3"
    by arith+
  then show "chosen (epsgreedy_mode file al be (int i) (int j) b k)
             = Some [spec_table ! j, spec_table ! i]"
    by (auto simp add: epsgreedy_mode_def chosen_def vector_at_def Let_def spec_table_def)
next
  assume "i < 4"
  from less_4_cases[OF \<open>i < 4\<close>]
  show "chosen (expgr_mode file al be (int i) b k) = Some [spec_table ! i]"
    by (auto simp add: expgr_mode_def chosen_def Let_def spec_table_def)
next
  assume "i < 4"
  from less_4_cases[OF \<open>i < 4\<close>]
  show "chosen (zscore_mode file al be (int i) b k) = Some [spec_table ! i]"
    by (auto simp add: zscore_mode_def chosen_def vector_at_def Let_def spec_table_def)
next
  assume "i < 4"
  from less_4_cases[OF \<open>i < 4\<close>]
  show "chosen (explore_mode file al be (int i) b k)
      = Some [[RandomEvaluator, DiscountDegreeEvaluator, CELFEvaluator, TIMEvaluator] ! i,
              [RandomEvaluator, DiscountDegreeEvaluator, CELFEvaluator, TIMEvaluator] ! i]"
    by (auto simp add: explore_mode_def chosen_def vector_at_def Let_def)
qed

theorem evaluator_index_tables_witness:
  "chosen (real_mode [Some (0, 1, 1 / 2)] 4 1 1) = Some [HighestDegreeEvaluator] \<and>
   chosen (prior_mode [Some (0, 1, 1 / 2)] 1 1 0 1 1) = Some [CELFEvaluator] \<and>
   chosen (epsgreedy_mode [Some (0, 1, 1 / 2)] 1 1 0 3 1 1) = Some [TIMEvaluator, CELFEvaluator] \<and>
   chosen (expgr_mode [Some (0, 1, 1 / 2)] 1 1 2 1 1) = Some [DiscountDegreeEvaluator] \<and>
   chosen (zscore_mode [Some (0, 1, 1 / 2)] 1 1 1 1 1) = Some [RandomEvaluator] \<and>
   chosen (explore_mode [Some (0, 1, 1 / 2)] 1 1 2 1 1) = Some [CELFEvaluator, CELFEvaluator]"
  using evaluator_index_tables[of 4 "[Some (0, 1, 1 / 2)]" 1 1 1 1 0]
        evaluator_index_tables[of 0 "[Some (0, 1, 1 / 2)]" 1 1 1 1 3]
        evaluator_index_tables[of 2 "[Some (0, 1, 1 / 2)]" 1 1 1 1 0]
        evaluator_index_tables[of 1 "[Some (0, 1, 1 / 2)]" 1 1 1 1 0]
  by (simp add: spec_table_def)


text \<open>
  C4. On the graph with the arcs from 0 to 1, from 0 to 2 and from 1 to 2, all live,
  \<^verbatim>\<open>tarjan\<close> gives node 0 the component 2, node 1 the component 1 and node 2 the
  component 0. The contracted graph has the arcs from 2 to 1 and from 1 to 0, which follow
  \<^verbatim>\<open>pred\<close>; the live arc from node 0 to node 2 crosses from component 2 to component 0
  and has no arc in it.
\<close>

theorem contracted_graph_follows_pred:
  "map_option (\<lambda>(ccm, ccl, dag, g). (ccm, ccl, dag)) (tarjan example_graph3 (\<lambda>_. True)) =
     Some ([(2, 0), (1, 1), (0, 2)], [(0, [2]), (1, [1]), (2, [0])],
           \<lparr>node_list = [0, 1, 2],
            adj_list = [(2, [\<lparr>target = 1, dist = SingleInfluence 1\<rparr>]),
                        (1, [\<lparr>target = 0, dist = SingleInfluence 1\<rparr>])]\<rparr>) \<and>
   (2, 0) \<notin> arcs \<lparr>node_list = [0, 1, 2],
            adj_list = [(2, [\<lparr>target = 1, dist = SingleInfluence 1\<rparr>]),
                        (1, [\<lparr>target = 0, dist = SingleInfluence 1\<rparr>])]\<rparr>"
proof
  show "map_option (\<lambda>(ccm, ccl, dag, g). (ccm, ccl, dag)) (tarjan example_graph3 (\<lambda>_. True)) =
     Some ([(2, 0), (1, 1), (0, 2)], [(0, [2]), (1, [1]), (2, [0])],
           \<lparr>node_list = [0, 1, 2],
            adj_list = [(2, [\<lparr>target = 1, dist = SingleInfluence 1\<rparr>]),
                        (1, [\<lparr>target = 0, dist = SingleInfluence 1\<rparr>])]\<rparr>)"
    by code_simp
  show "(2, 0) \<notin> arcs \<lparr>node_list = [0, 1, 2],
            adj_list = [(2, [\<lparr>target = 1, dist = SingleInfluence 1\<rparr>]),
                        (1, [\<lparr>target = 0, dist = SingleInfluence 1\<rparr>])]\<rparr>"
    by (simp add: arcs_def get_neighbours_def)
qed
















text \<open>
  C10. \<^verbatim>\<open>bfs\<close> with \<open>to = false\<close>, started on an empty \<open>col\<close>, collects only nodes reached
  from the start node through at least one arc, and never the start node. So
  \<^verbatim>\<open>update_dag(i, node)\<close> removes from \<^verbatim>\<open>graphs[i]\<close> only nodes that are reached from the
  component \<open>t\<close> of \<open>node\<close> through at least one arc and differ from \<open>t\<close>, and \<open>t\<close> is a node
  of the graph after the update exactly when it was one before.
\<close>

theorem update_dag_keeps_selected_component:
  "node \<notin> set (bfs g node [] False to_node) \<and>
   (\<forall>x \<in> set (bfs g node [] False to_node). (node, x) \<in> (arcs g)\<^sup>+) \<and>
   has_node (graphs_i (update_dag c n)) (lookup0 (map_of (cc_i c)) n)
     = has_node (graphs_i c) (lookup0 (map_of (cc_i c)) n) \<and>
   (\<forall>x. has_node (graphs_i c) x \<and> \<not> has_node (graphs_i (update_dag c n)) x \<longrightarrow>
        x \<noteq> lookup0 (map_of (cc_i c)) n \<and> (lookup0 (map_of (cc_i c)) n, x) \<in> (arcs (graphs_i c))\<^sup>+)"
proof -
  let ?t = "lookup0 (map_of (cc_i c)) n"
  let ?desc = "bfs (graphs_i c) ?t [] False 0"
  have g': "graphs_i (update_dag c n) = remove_nodes ?desc (graphs_i c)"
    by (simp add: update_dag_def Let_def)
  have d: "set ?desc \<subseteq> {x. (?t, x) \<in> (arcs (graphs_i c))\<^sup>+} - {?t}"
    by (rule bfs_descendants)
  have 1: "node \<notin> set (bfs g node [] False to_node)"
    using bfs_descendants[of g node to_node] by blast
  have 2: "\<forall>x \<in> set (bfs g node [] False to_node). (node, x) \<in> (arcs g)\<^sup>+"
    using bfs_descendants[of g node to_node] by blast
  have 3: "has_node (graphs_i (update_dag c n)) ?t = has_node (graphs_i c) ?t"
    using d by (auto simp: g' has_node_remove_nodes)
  have 4: "\<forall>x. has_node (graphs_i c) x \<and> \<not> has_node (graphs_i (update_dag c n)) x \<longrightarrow>
        x \<noteq> ?t \<and> (?t, x) \<in> (arcs (graphs_i c))\<^sup>+"
    using d by (auto simp: g' has_node_remove_nodes)
  from 1 2 3 4 show ?thesis by blast
qed

theorem update_dag_keeps_selected_component_witness:
  "has_node (graphs_i example_cache) 0 \<and>
   \<not> has_node (graphs_i (update_dag example_cache 0)) 0 \<and>
   has_node (graphs_i (update_dag example_cache 0)) 1 \<and>
   (1, 0) \<in> (arcs (graphs_i example_cache))\<^sup>+ \<and>
   bfs (graphs_i example_cache) 1 [] False 0 = [0]"
proof -
  have t: "lookup0 (map_of (cc_i example_cache)) 0 = 1" by code_simp
  have a: "has_node (graphs_i example_cache) 0" by code_simp
  have b: "\<not> has_node (graphs_i (update_dag example_cache 0)) 0" by code_simp
  have b1: "has_node (graphs_i example_cache) 1" by code_simp
  have e: "bfs (graphs_i example_cache) 1 [] False 0 = [0]" by code_simp
  note inst = update_dag_keeps_selected_component[of 1 "graphs_i example_cache" 0 example_cache 0]
  from inst a b t have "(1, 0) \<in> (arcs (graphs_i example_cache))\<^sup>+" by auto
  moreover from inst b1 t have "has_node (graphs_i (update_dag example_cache 0)) 1" by simp
  ultimately show ?thesis using a b e by blast
qed

end
